theory Spec2Isabelle
  imports Complex_Main "HOL-Library.Word"
begin

section \<open>C floating-point values\<close>

text \<open>
  The Cython sources compute with C \<open>float\<close> and \<open>double\<close> under the directives
  \<open>boundscheck=False\<close> and \<open>cdivision=True\<close>: a division by zero raises nothing and
  yields an infinity or a NaN, and every comparison with a NaN is false.  A value
  is a finite number, one of the two infinities, or NaN, and a zero carries no
  sign (a division by zero takes the sign of the dividend, as it does for the
  positive zero).

  The operations of this section are exact on finite values: no result is
  rounded, none overflows or underflows.  They give the program on exact
  arithmetic, which has the control flow and the behaviour on infinities, NaN and
  division by zero of the program on any arithmetic, and its results wherever no
  rounding changes a comparison.  The count search and the direct counting mode are
  given a second time, in the last section of the definitions, with every rounding
  of the source as a parameter.
\<close>

datatype cfloat = Fin real | PInf | NInf | NaN

fun fneg :: "cfloat \<Rightarrow> cfloat" where
  "fneg (Fin a) = Fin (- a)"
| "fneg PInf = NInf"
| "fneg NInf = PInf"
| "fneg NaN = NaN"

fun fadd :: "cfloat \<Rightarrow> cfloat \<Rightarrow> cfloat" where
  "fadd (Fin a) (Fin b) = Fin (a + b)"
| "fadd NaN _ = NaN"
| "fadd _ NaN = NaN"
| "fadd PInf NInf = NaN"
| "fadd NInf PInf = NaN"
| "fadd PInf _ = PInf"
| "fadd _ PInf = PInf"
| "fadd NInf _ = NInf"
| "fadd _ NInf = NInf"

definition fsub :: "cfloat \<Rightarrow> cfloat \<Rightarrow> cfloat" where
  "fsub a b = fadd a (fneg b)"

fun fmul :: "cfloat \<Rightarrow> cfloat \<Rightarrow> cfloat" where
  "fmul (Fin a) (Fin b) = Fin (a * b)"
| "fmul NaN _ = NaN"
| "fmul _ NaN = NaN"
| "fmul PInf (Fin b) = (if b = 0 then NaN else if 0 < b then PInf else NInf)"
| "fmul NInf (Fin b) = (if b = 0 then NaN else if 0 < b then NInf else PInf)"
| "fmul (Fin a) PInf = (if a = 0 then NaN else if 0 < a then PInf else NInf)"
| "fmul (Fin a) NInf = (if a = 0 then NaN else if 0 < a then NInf else PInf)"
| "fmul PInf PInf = PInf"
| "fmul NInf NInf = PInf"
| "fmul PInf NInf = NInf"
| "fmul NInf PInf = NInf"

fun fdiv :: "cfloat \<Rightarrow> cfloat \<Rightarrow> cfloat" where
  "fdiv (Fin a) (Fin b) =
     (if b = 0 then (if a = 0 then NaN else if 0 < a then PInf else NInf)
      else Fin (a / b))"
| "fdiv NaN _ = NaN"
| "fdiv _ NaN = NaN"
| "fdiv (Fin a) PInf = Fin 0"
| "fdiv (Fin a) NInf = Fin 0"
| "fdiv PInf (Fin b) = (if 0 \<le> b then PInf else NInf)"
| "fdiv NInf (Fin b) = (if 0 \<le> b then NInf else PInf)"
| "fdiv PInf PInf = NaN"
| "fdiv PInf NInf = NaN"
| "fdiv NInf PInf = NaN"
| "fdiv NInf NInf = NaN"

text \<open>The comparisons \<open><\<close>, \<open><=\<close>, \<open>>\<close> and \<open>==\<close> of C: false as soon as an operand is NaN.\<close>

fun flt :: "cfloat \<Rightarrow> cfloat \<Rightarrow> bool" where
  "flt (Fin a) (Fin b) = (a < b)"
| "flt NaN _ = False"
| "flt _ NaN = False"
| "flt _ NInf = False"
| "flt PInf _ = False"
| "flt NInf _ = True"
| "flt _ PInf = True"

fun fle :: "cfloat \<Rightarrow> cfloat \<Rightarrow> bool" where
  "fle (Fin a) (Fin b) = (a \<le> b)"
| "fle NaN _ = False"
| "fle _ NaN = False"
| "fle NInf _ = True"
| "fle _ PInf = True"
| "fle PInf _ = False"
| "fle _ NInf = False"

definition fgt :: "cfloat \<Rightarrow> cfloat \<Rightarrow> bool" where
  "fgt a b = flt b a"

fun feq :: "cfloat \<Rightarrow> cfloat \<Rightarrow> bool" where
  "feq (Fin a) (Fin b) = (a = b)"
| "feq PInf PInf = True"
| "feq NInf NInf = True"
| "feq _ _ = False"

text \<open>\<open>round\<close> of the C library: the nearest integer, halfway cases away from zero.\<close>

fun fround :: "cfloat \<Rightarrow> cfloat" where
  "fround (Fin a) =
     (if 0 \<le> a then Fin (of_int \<lfloor>a + 1 / 2\<rfloor>) else Fin (- of_int \<lfloor>- a + 1 / 2\<rfloor>))"
| "fround v = v"

fun fsqrt :: "cfloat \<Rightarrow> cfloat" where
  "fsqrt (Fin a) = (if a < 0 then NaN else Fin (sqrt a))"
| "fsqrt PInf = PInf"
| "fsqrt NInf = NaN"
| "fsqrt NaN = NaN"

fun fexp :: "cfloat \<Rightarrow> cfloat" where
  "fexp (Fin a) = Fin (exp a)"
| "fexp PInf = PInf"
| "fexp NInf = Fin 0"
| "fexp NaN = NaN"

text \<open>
  \<open>pow\<close> with an exponent that is a natural number, which every call of the
  sources has (the constant 2, or the loop counter): \<open>pow(x, 0)\<close> is 1 for every
  \<open>x\<close>, also for 0 and NaN.
\<close>

fun fpown :: "cfloat \<Rightarrow> nat \<Rightarrow> cfloat" where
  "fpown x 0 = Fin 1"
| "fpown (Fin a) n = Fin (a ^ n)"
| "fpown PInf n = PInf"
| "fpown NInf n = (if even n then PInf else NInf)"
| "fpown NaN n = NaN"

text \<open>The conversions \<open><float>\<close> of an \<open>int\<close> and of a \<open>long\<close>.\<close>

definition float_of_int :: "int \<Rightarrow> cfloat" where
  "float_of_int n = Fin (of_int n)"

type_synonym long = "64 word"

definition float_of_long :: "long \<Rightarrow> cfloat" where
  "float_of_long w = Fin (of_int (sint w))"

section \<open>The factorial table\<close>

text \<open>
  \<open>DEF factorials_table_length = 20\<close> and \<open>cdef long factorials_table[factorials_table_length]\<close>:
  a global array of 20 C \<open>long\<close>, here 64 bits wide (LP64), passed explicitly.
  \<open>create_factorials_table\<close> is only ever called with \<open>factorials_table_length\<close>, so
  every index it uses lies within the array.
\<close>

definition factorials_table_length :: int where
  "factorials_table_length = 20"

definition pi_const :: real where
  "pi_const = 314159 / 100000"

function fact_loop :: "int \<Rightarrow> int \<Rightarrow> long list \<Rightarrow> long list" where
  "fact_loop len counter tbl =
     (if counter < len
      then fact_loop len (counter + 1)
             (tbl[nat counter := tbl ! nat (counter - 1) * word_of_int counter])
      else tbl)"
  by pat_completeness auto
termination
  by (relation "measure (\<lambda>(len, counter, tbl). nat (len - counter))") auto

definition create_factorials_table :: "int \<Rightarrow> long list \<Rightarrow> long list" where
  "create_factorials_table len tbl = fact_loop len 1 (tbl[0 := 1])"

section \<open>The count search\<close>

text \<open>
  \<open>c_count_probability(counts, x)\<close> of the canonical module; its only caller passes
  the loop counter, \<open>0 \<le> counts < 20\<close>.
\<close>

definition c_count_probability :: "long list \<Rightarrow> int \<Rightarrow> cfloat \<Rightarrow> cfloat" where
  "c_count_probability tbl counts x =
     (let c = float_of_int counts in
      fmul
        (fmul (fdiv (Fin 1) (fsqrt (fmul (fmul (Fin 2) (Fin pi_const)) (fpown c 2))))
              (fexp (fdiv (fmul (Fin (- 1)) (fpown (fsub x c) 2))
                          (fmul (Fin 2) (fpown c 2)))))
        (fdiv (fmul (fpown c (nat counts)) (fexp (fmul (Fin (- 1)) c)))
              (float_of_long (tbl ! nat counts))))"

text \<open>
  The \<open>while counter < factorials_table_length\<close> loop of \<open>c_find_most_likely_counts\<close>.
  Beside the returned value the model records, in order, the counters at which
  \<open>c_count_probability\<close> was called.
\<close>

function find_loop ::
  "long list \<Rightarrow> cfloat \<Rightarrow> int \<Rightarrow> cfloat \<Rightarrow> int list \<Rightarrow> cfloat \<times> int list" where
  "find_loop tbl x counter max_probability calls =
     (if counter < factorials_table_length
      then (let current_probability = c_count_probability tbl counter x in
            if flt current_probability max_probability
            then (float_of_int (counter - 1), calls @ [counter])
            else find_loop tbl x (counter + 1) current_probability (calls @ [counter]))
      else (float_of_int factorials_table_length, calls))"
  by pat_completeness auto
termination
  by (relation "measure (\<lambda>(tbl, x, counter, m, calls). nat (factorials_table_length - counter))")
     auto

definition c_find_most_likely_counts :: "long list \<Rightarrow> cfloat \<Rightarrow> cfloat \<times> int list" where
  "c_find_most_likely_counts tbl x =
     (if feq (fround (fadd x (Fin (1 / 4)))) (Fin 0) then (Fin 0, [])
      else find_loop tbl x 0 (Fin 0) [])"

text \<open>
  The real number that \<open>c_count_probability\<close> computes at a finite \<open>x\<close> for a
  counter \<open>n \<ge> 1\<close> once the table holds the factorials: the expression of the
  source, read over the reals (see \<open>count_probability_finite\<close> below).
\<close>

definition prob_value :: "nat \<Rightarrow> real \<Rightarrow> real" where
  "prob_value n x =
     1 / sqrt (2 * pi_const * real n ^ 2) * exp (- 1 * (x - real n) ^ 2 / (2 * real n ^ 2))
       * (real n ^ n * exp (- 1 * real n) / fact n)"

text \<open>
  The earlier module \<open>ElectronCounting/c_electron_counting.pyx\<close> has the same two
  functions under the names \<open>count_probability\<close> and \<open>find_most_likely_counts\<close>,
  with the literal 3.14159 in place of the constant and \<open>round(x)\<close> in place of
  \<open>round(x+0.25)\<close>.
\<close>

definition count_probability :: "long list \<Rightarrow> int \<Rightarrow> cfloat \<Rightarrow> cfloat" where
  "count_probability tbl counts x =
     (let c = float_of_int counts in
      fmul
        (fmul (fdiv (Fin 1) (fsqrt (fmul (fmul (Fin 2) (Fin (314159 / 100000))) (fpown c 2))))
              (fexp (fdiv (fmul (Fin (- 1)) (fpown (fsub x c) 2))
                          (fmul (Fin 2) (fpown c 2)))))
        (fdiv (fmul (fpown c (nat counts)) (fexp (fmul (Fin (- 1)) c)))
              (float_of_long (tbl ! nat counts))))"

function legacy_find_loop ::
  "long list \<Rightarrow> cfloat \<Rightarrow> int \<Rightarrow> cfloat \<Rightarrow> int list \<Rightarrow> cfloat \<times> int list" where
  "legacy_find_loop tbl x counter max_probability calls =
     (if counter < factorials_table_length
      then (let current_probability = count_probability tbl counter x in
            if flt current_probability max_probability
            then (float_of_int (counter - 1), calls @ [counter])
            else legacy_find_loop tbl x (counter + 1) current_probability (calls @ [counter]))
      else (float_of_int factorials_table_length, calls))"
  by pat_completeness auto
termination
  by (relation "measure (\<lambda>(tbl, x, counter, m, calls). nat (factorials_table_length - counter))")
     auto

definition legacy_find_most_likely_counts :: "long list \<Rightarrow> cfloat \<Rightarrow> cfloat \<times> int list" where
  "legacy_find_most_likely_counts tbl x =
     (if feq (fround x) (Fin 0) then (Fin 0, [])
      else legacy_find_loop tbl x 0 (Fin 0) [])"

section \<open>Images and the direct counting mode\<close>

text \<open>
  A two-dimensional numpy array of 32-bit floats: its shape and its rows.
  \<open>numpy.zeros(image.shape)\<close> is the array of that shape filled with 0.
\<close>

record ndarray =
  shape0 :: int
  shape1 :: int
  rows :: "cfloat list list"

definition row_ok :: "int \<Rightarrow> cfloat list \<Rightarrow> bool" where
  "row_ok w r = (int (length r) = w)"

definition well_shaped :: "ndarray \<Rightarrow> bool" where
  "well_shaped a =
     (0 \<le> shape1 a \<and> int (length (rows a)) = shape0 a \<and> list_all (row_ok (shape1 a)) (rows a))"

definition zeros :: "int \<Rightarrow> int \<Rightarrow> cfloat list list" where
  "zeros h w = replicate (nat h) (replicate (nat w) (Fin 0))"

text \<open>
  \<open>c_find_most_likely_counts_image\<close>: the table is rebuilt, then the two \<open>for\<close>
  loops over \<open>range(height)\<close> and \<open>range(width)\<close> write every result pixel.  The
  function returns the result buffer and the global table as it leaves them.
\<close>

definition c_find_most_likely_counts_image ::
  "long list \<Rightarrow> cfloat list list \<Rightarrow> cfloat list list \<Rightarrow> int \<Rightarrow> int \<Rightarrow> cfloat \<Rightarrow> cfloat
     \<Rightarrow> cfloat list list \<times> long list" where
  "c_find_most_likely_counts_image tbl0 img result height width baseline countlevel =
     (let tbl = create_factorials_table factorials_table_length tbl0 in
      (fold (\<lambda>k res.
          fold (\<lambda>i res.
              res[k := (res ! k)[i :=
                fst (c_find_most_likely_counts tbl
                       (fdiv (fsub (img ! k ! i) baseline) countlevel))]])
            [0..<nat width] res)
        [0..<nat height] result, tbl))"

definition find_most_likely_counts ::
  "long list \<Rightarrow> ndarray \<Rightarrow> cfloat \<Rightarrow> cfloat \<Rightarrow> cfloat list list \<times> long list" where
  "find_most_likely_counts tbl0 img baseline countlevel =
     c_find_most_likely_counts_image tbl0 (rows img) (zeros (shape0 img) (shape1 img))
       (shape0 img) (shape1 img) baseline countlevel"

section \<open>The peak-integration scan\<close>

text \<open>
  The scan is modelled on exact arithmetic: the threshold test compares exact
  products, and the quotient \<open>rand() / RAND_MAX\<close> is the exact one, where C converts
  both to \<open>float\<close> first (the two values of \<open>randnum\<close> can differ by one; they are
  the same at the values of \<open>rand()\<close> used in the runs below).

  The module is compiled with \<open>boundscheck=False\<close>: an index outside an array is
  not checked, and the access is undefined behaviour.  The model makes it a
  result of its own.  A negative index is first wrapped around once (Cython's
  \<open>wraparound\<close> is on by default).  The cast \<open><int>\<close> of a floating-point value
  truncates towards zero and is undefined for NaN, the infinities and values
  outside the range of a 32-bit \<open>int\<close>; beyond that cast \<open>int\<close> variables are
  unbounded integers here.
\<close>

datatype error = OutOfBounds | UndefinedConversion

definition int_of_float :: "cfloat \<Rightarrow> error + int" where
  "int_of_float v =
     (case v of
        Fin a \<Rightarrow>
          (if - 2147483649 < a \<and> a < 2147483648
           then Inr (if 0 \<le> a then \<lfloor>a\<rfloor> else \<lceil>a\<rceil>)
           else Inl UndefinedConversion)
      | _ \<Rightarrow> Inl UndefinedConversion)"

definition col_index :: "int \<Rightarrow> int \<Rightarrow> error + nat" where
  "col_index width i =
     (let j = (if i < 0 then i + width else i) in
      if 0 \<le> j \<and> j < width then Inr (nat j) else Inl OutOfBounds)"

definition read_px :: "cfloat list list \<Rightarrow> nat \<Rightarrow> int \<Rightarrow> int \<Rightarrow> error + cfloat" where
  "read_px img k i width =
     (case col_index width i of Inl err \<Rightarrow> Inl err | Inr j \<Rightarrow> Inr (img ! k ! j))"

definition write_px ::
  "cfloat list list \<Rightarrow> nat \<Rightarrow> int \<Rightarrow> int \<Rightarrow> cfloat \<Rightarrow> error + cfloat list list" where
  "write_px res k i width v =
     (case col_index width i of
        Inl err \<Rightarrow> Inl err
      | Inr j \<Rightarrow> Inr (res[k := (res ! k)[j := v]]))"

fun fatan :: "cfloat \<Rightarrow> cfloat" where
  "fatan (Fin a) = Fin (arctan a)"
| "fatan PInf = Fin (pi / 2)"
| "fatan NInf = Fin (- pi / 2)"
| "fatan NaN = NaN"

definition integration_range_gamma :: real where
  "integration_range_gamma = 2"

text \<open>
  What the loops of \<open>c_electron_counting\<close> read and never change: the arguments,
  the constants derived from them before the loops, the table, and the C library's
  generator, given as \<open>RAND_MAX\<close> and the sequence of values that successive calls
  of \<open>rand()\<close> return.
\<close>

record scan_env =
  e_image :: "cfloat list list"
  e_width :: int
  e_baseline :: cfloat
  e_only_integrate :: bool
  e_threshold :: cfloat
  e_peak_height :: cfloat
  e_peaklength :: int
  e_counts_divisor :: cfloat
  e_table :: "long list"
  e_rand :: "nat \<Rightarrow> int"
  e_rand_max :: int

text \<open>
  The variables of the \<open>while i < width\<close> loop, the result buffer and the number
  of calls of \<open>rand()\<close> made so far.
\<close>

record scan_state =
  s_i :: int
  s_index :: int
  s_integral :: cfloat
  s_peak_max :: cfloat
  s_result :: "cfloat list list"
  s_rand_calls :: nat

text \<open>
  The body of the first branch: the peak that began at \<open>index\<close> is closed at column
  \<open>i\<close>, whose sample is \<open>v\<close>.
\<close>

definition close_peak :: "scan_env \<Rightarrow> nat \<Rightarrow> cfloat \<Rightarrow> scan_state \<Rightarrow> error + scan_state" where
  "close_peak e k v s =
     (case write_px (s_result s) k (s_index s) (e_width e)
             (if e_only_integrate e then s_integral s
              else fst (c_find_most_likely_counts (e_table e)
                          (fdiv (s_integral s) (e_counts_divisor e)))) of
        Inl err \<Rightarrow> Inl err
      | Inr res \<Rightarrow>
          if fgt (fsub v (e_baseline e)) (fmul (s_peak_max s) (e_threshold e))
          then (case int_of_float
                       (fmul (fdiv (float_of_int (e_rand e (s_rand_calls s)))
                                   (float_of_int (e_rand_max e)))
                             (float_of_int (e_peaklength e))) of
                  Inl err \<Rightarrow> Inl err
                | Inr randnum \<Rightarrow>
                    (case read_px (e_image e) k (s_index s + 1 + randnum) (e_width e) of
                       Inl err \<Rightarrow> Inl err
                     | Inr v' \<Rightarrow>
                         Inr (s\<lparr>s_i := s_index s + 1 + randnum,
                                s_index := s_index s + 1 + randnum,
                                s_integral := v',
                                s_peak_max := e_peak_height e,
                                s_result := res,
                                s_rand_calls := Suc (s_rand_calls s)\<rparr>)))
          else Inr (s\<lparr>s_index := - 1, s_integral := Fin 0,
                       s_peak_max := e_peak_height e, s_result := res\<rparr>))"

text \<open>The \<open>if \<dots> elif\<close> at the head of the loop body.\<close>

definition peak_step :: "scan_env \<Rightarrow> nat \<Rightarrow> scan_state \<Rightarrow> error + scan_state" where
  "peak_step e k s =
     (if s_index s \<noteq> - 1
      then (case read_px (e_image e) k (s_i s) (e_width e) of
              Inl err \<Rightarrow> Inl err
            | Inr v \<Rightarrow>
                if fle (fsub v (e_baseline e)) (fmul (s_peak_max s) (e_threshold e))
                   \<or> s_i s - s_index s \<ge> e_peaklength e \<or> s_i s = e_width e - 1
                then close_peak e k v s
                else Inr (s\<lparr>s_integral := fadd (s_integral s) (fsub v (e_baseline e)),
                             s_peak_max := (if fgt v (s_peak_max s) then v else s_peak_max s)\<rparr>))
      else Inr s)"

text \<open>The second \<open>if\<close> of the loop body: a peak starts at column \<open>i\<close>.\<close>

definition start_step :: "scan_env \<Rightarrow> nat \<Rightarrow> scan_state \<Rightarrow> error + scan_state" where
  "start_step e k s =
     (if s_index s = - 1
      then (case read_px (e_image e) k (s_i s) (e_width e) of
              Inl err \<Rightarrow> Inl err
            | Inr v \<Rightarrow>
                if fgt (fsub v (e_baseline e)) (fmul (s_peak_max s) (e_threshold e))
                then Inr (s\<lparr>s_index := s_i s, s_integral := v\<rparr>)
                else Inr s)
      else Inr s)"

definition loop_body :: "scan_env \<Rightarrow> nat \<Rightarrow> scan_state \<Rightarrow> error + scan_state" where
  "loop_body e k s =
     (case peak_step e k s of
        Inl err \<Rightarrow> Inl err
      | Inr s1 \<Rightarrow>
          (case start_step e k s1 of
             Inl err \<Rightarrow> Inl err
           | Inr s2 \<Rightarrow> Inr (s2\<lparr>s_i := s_i s2 + 1\<rparr>)))"

text \<open>
  The \<open>while i < width\<close> loop.  A restart may move \<open>i\<close> backwards, so the loop need
  not end: \<open>None\<close> is the run that never leaves the loop.
\<close>

partial_function (option) row_loop ::
  "scan_env \<Rightarrow> nat \<Rightarrow> scan_state \<Rightarrow> (error + scan_state) option" where
  "row_loop e k s =
     (if s_i s < e_width e
      then (case loop_body e k s of
              Inl err \<Rightarrow> Some (Inl err)
            | Inr s' \<Rightarrow> row_loop e k s')
      else Some (Inr s))"

definition row_start :: "scan_env \<Rightarrow> cfloat list list \<Rightarrow> nat \<Rightarrow> scan_state" where
  "row_start e res calls =
     \<lparr>s_i = 0, s_index = - 1, s_integral = Fin 0, s_peak_max = e_peak_height e,
      s_result = res, s_rand_calls = calls\<rparr>"

text \<open>The \<open>for k in range(height)\<close> loop over the rows.\<close>

fun rows_loop ::
  "scan_env \<Rightarrow> nat list \<Rightarrow> cfloat list list \<Rightarrow> nat
     \<Rightarrow> (error + cfloat list list \<times> nat) option" where
  "rows_loop e [] res calls = Some (Inr (res, calls))"
| "rows_loop e (k # ks) res calls =
     (case row_loop e k (row_start e res calls) of
        None \<Rightarrow> None
      | Some (Inl err) \<Rightarrow> Some (Inl err)
      | Some (Inr s) \<Rightarrow> rows_loop e ks (s_result s) (s_rand_calls s))"

text \<open>
  \<open>c_electron_counting\<close>: the table is rebuilt, the constants are derived, and the
  rows are scanned.  It returns the result buffer, the table and the number of
  calls of \<open>rand()\<close> as it leaves them.
\<close>

definition c_electron_counting ::
  "long list \<Rightarrow> (nat \<Rightarrow> int) \<Rightarrow> int \<Rightarrow> nat \<Rightarrow> cfloat list list \<Rightarrow> cfloat list list
     \<Rightarrow> int \<Rightarrow> int \<Rightarrow> cfloat \<Rightarrow> cfloat \<Rightarrow> cfloat \<Rightarrow> bool
     \<Rightarrow> (error + cfloat list list \<times> long list \<times> nat) option" where
  "c_electron_counting tbl0 rnd rand_max calls0 img result height width
       baseline countlevel peakwidth only_integrate =
     (let tbl = create_factorials_table factorials_table_length tbl0;
          threshold = fdiv (Fin 1) (fadd (Fin 1) (fpown (Fin integration_range_gamma) 2));
          peak_height = fdiv (fdiv countlevel peakwidth)
                             (fsub (fatan (Fin 10)) (fatan (Fin (- 10))))
      in case int_of_float (fround (fmul (fmul (Fin 2) (Fin integration_range_gamma)) peakwidth)) of
           Inl err \<Rightarrow> Some (Inl err)
         | Inr peaklength \<Rightarrow>
             (case rows_loop
                     \<lparr>e_image = img, e_width = width, e_baseline = baseline,
                      e_only_integrate = only_integrate, e_threshold = threshold,
                      e_peak_height = peak_height, e_peaklength = peaklength,
                      e_counts_divisor =
                        fsub countlevel (fmul baseline (float_of_int peaklength)),
                      e_table = tbl, e_rand = rnd, e_rand_max = rand_max\<rparr>
                     [0..<nat height] result calls0 of
                None \<Rightarrow> None
              | Some (Inl err) \<Rightarrow> Some (Inl err)
              | Some (Inr (res, calls)) \<Rightarrow> Some (Inr (res, tbl, calls))))"

definition electron_counting ::
  "long list \<Rightarrow> (nat \<Rightarrow> int) \<Rightarrow> int \<Rightarrow> nat \<Rightarrow> ndarray \<Rightarrow> cfloat \<Rightarrow> cfloat \<Rightarrow> cfloat \<Rightarrow> bool
     \<Rightarrow> (error + cfloat list list \<times> long list \<times> nat) option" where
  "electron_counting tbl0 rnd rand_max calls0 img baseline countlevel peakwidth only_integrate =
     c_electron_counting tbl0 rnd rand_max calls0 (rows img)
       (zeros (shape0 img) (shape1 img)) (shape0 img) (shape1 img)
       baseline countlevel peakwidth only_integrate"

section \<open>The scan of the earlier module\<close>

text \<open>
  \<open>c_electron_counting\<close> of \<open>ElectronCounting/c_electron_counting.pyx\<close> has the same
  loop with a fixed threshold: no \<open>peak_max\<close>, no \<open>only_integrate\<close>, the comparisons
  \<open><\<close> and \<open>>=\<close> in place of \<open><=\<close> and \<open>>\<close>, and \<open>integration_range_gamma = 4\<close>.
  The fields \<open>e_peak_height\<close>, \<open>e_only_integrate\<close> and \<open>s_peak_max\<close> are not used
  here.
\<close>

definition fge :: "cfloat \<Rightarrow> cfloat \<Rightarrow> bool" where
  "fge a b = fle b a"

definition legacy_close_peak ::
  "scan_env \<Rightarrow> nat \<Rightarrow> cfloat \<Rightarrow> scan_state \<Rightarrow> error + scan_state" where
  "legacy_close_peak e k v s =
     (case write_px (s_result s) k (s_index s) (e_width e)
             (fst (legacy_find_most_likely_counts (e_table e)
                     (fdiv (s_integral s) (e_counts_divisor e)))) of
        Inl err \<Rightarrow> Inl err
      | Inr res \<Rightarrow>
          if fge (fsub v (e_baseline e)) (e_threshold e)
          then (case int_of_float
                       (fmul (fdiv (float_of_int (e_rand e (s_rand_calls s)))
                                   (float_of_int (e_rand_max e)))
                             (float_of_int (e_peaklength e))) of
                  Inl err \<Rightarrow> Inl err
                | Inr randnum \<Rightarrow>
                    (case read_px (e_image e) k (s_index s + 1 + randnum) (e_width e) of
                       Inl err \<Rightarrow> Inl err
                     | Inr v' \<Rightarrow>
                         Inr (s\<lparr>s_i := s_index s + 1 + randnum,
                                s_index := s_index s + 1 + randnum,
                                s_integral := v',
                                s_result := res,
                                s_rand_calls := Suc (s_rand_calls s)\<rparr>)))
          else Inr (s\<lparr>s_index := - 1, s_integral := Fin 0, s_result := res\<rparr>))"

definition legacy_peak_step :: "scan_env \<Rightarrow> nat \<Rightarrow> scan_state \<Rightarrow> error + scan_state" where
  "legacy_peak_step e k s =
     (if s_index s \<noteq> - 1
      then (case read_px (e_image e) k (s_i s) (e_width e) of
              Inl err \<Rightarrow> Inl err
            | Inr v \<Rightarrow>
                if flt (fsub v (e_baseline e)) (e_threshold e)
                   \<or> s_i s - s_index s \<ge> e_peaklength e \<or> s_i s = e_width e - 1
                then legacy_close_peak e k v s
                else Inr (s\<lparr>s_integral := fadd (s_integral s) (fsub v (e_baseline e))\<rparr>))
      else Inr s)"

definition legacy_start_step :: "scan_env \<Rightarrow> nat \<Rightarrow> scan_state \<Rightarrow> error + scan_state" where
  "legacy_start_step e k s =
     (if s_index s = - 1
      then (case read_px (e_image e) k (s_i s) (e_width e) of
              Inl err \<Rightarrow> Inl err
            | Inr v \<Rightarrow>
                if fge (fsub v (e_baseline e)) (e_threshold e)
                then Inr (s\<lparr>s_index := s_i s, s_integral := v\<rparr>)
                else Inr s)
      else Inr s)"

definition legacy_loop_body :: "scan_env \<Rightarrow> nat \<Rightarrow> scan_state \<Rightarrow> error + scan_state" where
  "legacy_loop_body e k s =
     (case legacy_peak_step e k s of
        Inl err \<Rightarrow> Inl err
      | Inr s1 \<Rightarrow>
          (case legacy_start_step e k s1 of
             Inl err \<Rightarrow> Inl err
           | Inr s2 \<Rightarrow> Inr (s2\<lparr>s_i := s_i s2 + 1\<rparr>)))"

partial_function (option) legacy_row_loop ::
  "scan_env \<Rightarrow> nat \<Rightarrow> scan_state \<Rightarrow> (error + scan_state) option" where
  "legacy_row_loop e k s =
     (if s_i s < e_width e
      then (case legacy_loop_body e k s of
              Inl err \<Rightarrow> Some (Inl err)
            | Inr s' \<Rightarrow> legacy_row_loop e k s')
      else Some (Inr s))"

fun legacy_rows_loop ::
  "scan_env \<Rightarrow> nat list \<Rightarrow> cfloat list list \<Rightarrow> nat
     \<Rightarrow> (error + cfloat list list \<times> nat) option" where
  "legacy_rows_loop e [] res calls = Some (Inr (res, calls))"
| "legacy_rows_loop e (k # ks) res calls =
     (case legacy_row_loop e k (row_start e res calls) of
        None \<Rightarrow> None
      | Some (Inl err) \<Rightarrow> Some (Inl err)
      | Some (Inr s) \<Rightarrow> legacy_rows_loop e ks (s_result s) (s_rand_calls s))"

definition legacy_c_electron_counting ::
  "long list \<Rightarrow> (nat \<Rightarrow> int) \<Rightarrow> int \<Rightarrow> nat \<Rightarrow> cfloat list list \<Rightarrow> cfloat list list
     \<Rightarrow> int \<Rightarrow> int \<Rightarrow> cfloat \<Rightarrow> cfloat \<Rightarrow> cfloat
     \<Rightarrow> (error + cfloat list list \<times> long list \<times> nat) option" where
  "legacy_c_electron_counting tbl0 rnd rand_max calls0 img result height width
       baseline countlevel peakwidth =
     (let tbl = create_factorials_table factorials_table_length tbl0;
          threshold = fdiv countlevel (fadd (Fin 1) (fpown (Fin 4) 2))
      in case int_of_float (fround (fmul (fmul (Fin 2) (Fin 4)) peakwidth)) of
           Inl err \<Rightarrow> Some (Inl err)
         | Inr peaklength \<Rightarrow>
             (case legacy_rows_loop
                     \<lparr>e_image = img, e_width = width, e_baseline = baseline,
                      e_only_integrate = False, e_threshold = threshold,
                      e_peak_height = Fin 0, e_peaklength = peaklength,
                      e_counts_divisor =
                        fsub (fmul (fmul countlevel peakwidth)
                                   (fsub (fatan (Fin 4)) (fatan (fmul (Fin (- 1)) (Fin 4)))))
                             (fmul baseline (float_of_int peaklength)),
                      e_table = tbl, e_rand = rnd, e_rand_max = rand_max\<rparr>
                     [0..<nat height] result calls0 of
                None \<Rightarrow> None
              | Some (Inl err) \<Rightarrow> Some (Inl err)
              | Some (Inr (res, calls)) \<Rightarrow> Some (Inr (res, tbl, calls))))"

definition legacy_electron_counting ::
  "long list \<Rightarrow> (nat \<Rightarrow> int) \<Rightarrow> int \<Rightarrow> nat \<Rightarrow> ndarray \<Rightarrow> cfloat \<Rightarrow> cfloat \<Rightarrow> cfloat
     \<Rightarrow> (error + cfloat list list \<times> long list \<times> nat) option" where
  "legacy_electron_counting tbl0 rnd rand_max calls0 img baseline countlevel peakwidth =
     legacy_c_electron_counting tbl0 rnd rand_max calls0 (rows img)
       (zeros (shape0 img) (shape1 img)) (shape0 img) (shape1 img)
       baseline countlevel peakwidth"

section \<open>The count search and the direct mode with rounding\<close>

text \<open>
  The definitions above compute on exact reals.  The source computes on C \<open>float\<close>
  and \<open>double\<close>: every arithmetic result is rounded, the library functions return
  what the platform's \<open>libm\<close> returns, and a \<open>float\<close> variable holds a 32-bit value.
  The record below is the platform's arithmetic on finite operands: the rounding
  of a \<open>double\<close> result, the rounding of a \<open>float\<close> result (also the conversion to
  \<open>float\<close>), and the results of \<open>sqrt\<close>, \<open>exp\<close>, \<open>pow\<close> and \<open>powf\<close>.  Nothing is
  assumed of these functions.  The functions of this section are the count search
  and the direct counting mode once more, with every rounding of the source in
  place; the behaviour on infinities, NaN and division by zero is as before.
\<close>

record fpu =
  dbl :: "real \<Rightarrow> cfloat"
  flt32 :: "real \<Rightarrow> cfloat"
  lib_sqrt :: "real \<Rightarrow> cfloat"
  lib_exp :: "real \<Rightarrow> cfloat"
  lib_pow :: "real \<Rightarrow> nat \<Rightarrow> cfloat"
  lib_powf :: "real \<Rightarrow> nat \<Rightarrow> cfloat"

text \<open>Exact arithmetic is one such platform.\<close>

definition exact_fpu :: fpu where
  "exact_fpu =
     \<lparr>dbl = Fin, flt32 = Fin, lib_sqrt = (\<lambda>a. Fin (sqrt a)), lib_exp = (\<lambda>a. Fin (exp a)),
      lib_pow = (\<lambda>a n. Fin (a ^ n)), lib_powf = (\<lambda>a n. Fin (a ^ n))\<rparr>"

text \<open>
  \<open>+\<close>, \<open>-\<close>, \<open>*\<close> and \<open>/\<close> with the rounding \<open>rnd\<close> of their type: \<open>dbl\<close> when an
  operand is a \<open>double\<close>, \<open>flt32\<close> when both are \<open>float\<close>.
\<close>

fun radd :: "(real \<Rightarrow> cfloat) \<Rightarrow> cfloat \<Rightarrow> cfloat \<Rightarrow> cfloat" where
  "radd rnd (Fin a) (Fin b) = rnd (a + b)"
| "radd rnd NaN _ = NaN"
| "radd rnd _ NaN = NaN"
| "radd rnd PInf NInf = NaN"
| "radd rnd NInf PInf = NaN"
| "radd rnd PInf _ = PInf"
| "radd rnd _ PInf = PInf"
| "radd rnd NInf _ = NInf"
| "radd rnd _ NInf = NInf"

definition rsub :: "(real \<Rightarrow> cfloat) \<Rightarrow> cfloat \<Rightarrow> cfloat \<Rightarrow> cfloat" where
  "rsub rnd a b = radd rnd a (fneg b)"

fun rmul :: "(real \<Rightarrow> cfloat) \<Rightarrow> cfloat \<Rightarrow> cfloat \<Rightarrow> cfloat" where
  "rmul rnd (Fin a) (Fin b) = rnd (a * b)"
| "rmul rnd NaN _ = NaN"
| "rmul rnd _ NaN = NaN"
| "rmul rnd PInf (Fin b) = (if b = 0 then NaN else if 0 < b then PInf else NInf)"
| "rmul rnd NInf (Fin b) = (if b = 0 then NaN else if 0 < b then NInf else PInf)"
| "rmul rnd (Fin a) PInf = (if a = 0 then NaN else if 0 < a then PInf else NInf)"
| "rmul rnd (Fin a) NInf = (if a = 0 then NaN else if 0 < a then NInf else PInf)"
| "rmul rnd PInf PInf = PInf"
| "rmul rnd NInf NInf = PInf"
| "rmul rnd PInf NInf = NInf"
| "rmul rnd NInf PInf = NInf"

fun rdiv :: "(real \<Rightarrow> cfloat) \<Rightarrow> cfloat \<Rightarrow> cfloat \<Rightarrow> cfloat" where
  "rdiv rnd (Fin a) (Fin b) =
     (if b = 0 then (if a = 0 then NaN else if 0 < a then PInf else NInf)
      else rnd (a / b))"
| "rdiv rnd NaN _ = NaN"
| "rdiv rnd _ NaN = NaN"
| "rdiv rnd (Fin a) PInf = Fin 0"
| "rdiv rnd (Fin a) NInf = Fin 0"
| "rdiv rnd PInf (Fin b) = (if 0 \<le> b then PInf else NInf)"
| "rdiv rnd NInf (Fin b) = (if 0 \<le> b then NInf else PInf)"
| "rdiv rnd PInf PInf = NaN"
| "rdiv rnd PInf NInf = NaN"
| "rdiv rnd NInf PInf = NaN"
| "rdiv rnd NInf NInf = NaN"

fun rsqrt :: "fpu \<Rightarrow> cfloat \<Rightarrow> cfloat" where
  "rsqrt fp (Fin a) = (if a < 0 then NaN else lib_sqrt fp a)"
| "rsqrt fp PInf = PInf"
| "rsqrt fp NInf = NaN"
| "rsqrt fp NaN = NaN"

fun rexp :: "fpu \<Rightarrow> cfloat \<Rightarrow> cfloat" where
  "rexp fp (Fin a) = lib_exp fp a"
| "rexp fp PInf = PInf"
| "rexp fp NInf = Fin 0"
| "rexp fp NaN = NaN"

text \<open>\<open>pow\<close> or \<open>powf\<close> (the argument \<open>pw\<close>) with an exponent that is a natural number.\<close>

fun rpown :: "(real \<Rightarrow> nat \<Rightarrow> cfloat) \<Rightarrow> cfloat \<Rightarrow> nat \<Rightarrow> cfloat" where
  "rpown pw x 0 = Fin 1"
| "rpown pw (Fin a) n = pw a n"
| "rpown pw PInf n = PInf"
| "rpown pw NInf n = (if even n then PInf else NInf)"
| "rpown pw NaN n = NaN"

text \<open>
  The conversion of a \<open>double\<close> to \<open>float\<close>, and the conversions \<open><float>\<close> of an
  \<open>int\<close> and of a \<open>long\<close>: an integer of magnitude up to \<open>2^24\<close> is a \<open>float\<close> and is
  converted exactly, a larger one is rounded.
\<close>

fun to_float :: "fpu \<Rightarrow> cfloat \<Rightarrow> cfloat" where
  "to_float fp (Fin a) = flt32 fp a"
| "to_float fp v = v"

definition float_of_int_fp :: "fpu \<Rightarrow> int \<Rightarrow> cfloat" where
  "float_of_int_fp fp n =
     (if - 16777216 \<le> n \<and> n \<le> 16777216 then Fin (of_int n) else flt32 fp (of_int n))"

definition float_of_long_fp :: "fpu \<Rightarrow> long \<Rightarrow> cfloat" where
  "float_of_long_fp fp w = float_of_int_fp fp (sint w)"

text \<open>
  \<open>c_count_probability\<close>: \<open><float>counts\<close> and \<open>(<float>counts)**2\<close> are \<open>float\<close>, the
  difference \<open>x - <float>counts\<close> is a \<open>float\<close> subtraction, the constant \<open>pi\<close> is the
  \<open>double\<close> nearest to 3.14159, every other operation is on \<open>double\<close>, and the
  product is converted to \<open>float\<close> on return.
\<close>

definition c_count_probability_fp :: "fpu \<Rightarrow> long list \<Rightarrow> int \<Rightarrow> cfloat \<Rightarrow> cfloat" where
  "c_count_probability_fp fp tbl counts x =
     (let c = float_of_int_fp fp counts;
          c2 = rpown (lib_powf fp) c 2
      in to_float fp
        (rmul (dbl fp)
          (rmul (dbl fp)
             (rdiv (dbl fp) (Fin 1)
                (rsqrt fp (rmul (dbl fp) (rmul (dbl fp) (Fin 2) (dbl fp (314159 / 100000))) c2)))
             (rexp fp (rdiv (dbl fp)
                         (rmul (dbl fp) (Fin (- 1)) (rpown (lib_pow fp) (rsub (flt32 fp) x c) 2))
                         (rmul (dbl fp) (Fin 2) c2))))
          (rdiv (dbl fp)
             (rmul (dbl fp) (rpown (lib_pow fp) c (nat counts))
                            (rexp fp (rmul (dbl fp) (Fin (- 1)) c)))
             (float_of_long_fp fp (tbl ! nat counts)))))"

text \<open>
  \<open>c_find_most_likely_counts\<close>: \<open>x + 0.25\<close> is a \<open>double\<close> addition, \<open>round\<close> is exact,
  and the loop compares the \<open>float\<close> values that \<open>c_count_probability\<close> returned.
\<close>

function find_loop_fp ::
  "fpu \<Rightarrow> long list \<Rightarrow> cfloat \<Rightarrow> int \<Rightarrow> cfloat \<Rightarrow> int list \<Rightarrow> cfloat \<times> int list" where
  "find_loop_fp fp tbl x counter max_probability calls =
     (if counter < factorials_table_length
      then (let current_probability = c_count_probability_fp fp tbl counter x in
            if flt current_probability max_probability
            then (float_of_int_fp fp (counter - 1), calls @ [counter])
            else find_loop_fp fp tbl x (counter + 1) current_probability (calls @ [counter]))
      else (float_of_int_fp fp factorials_table_length, calls))"
  by pat_completeness auto
termination
  by (relation "measure (\<lambda>(fp, tbl, x, counter, m, calls). nat (factorials_table_length - counter))")
     auto

definition c_find_most_likely_counts_fp ::
  "fpu \<Rightarrow> long list \<Rightarrow> cfloat \<Rightarrow> cfloat \<times> int list" where
  "c_find_most_likely_counts_fp fp tbl x =
     (if feq (fround (radd (dbl fp) x (Fin (1 / 4)))) (Fin 0) then (Fin 0, [])
      else find_loop_fp fp tbl x 0 (Fin 0) [])"

text \<open>
  \<open>c_find_most_likely_counts_image\<close>: \<open>(image[k, i] - baseline) / countlevel\<close> is a
  \<open>float\<close> subtraction followed by a \<open>float\<close> division.  In \<open>find_most_likely_counts\<close>
  the arguments \<open>baseline\<close> and \<open>countlevel\<close> are Python floats, converted by
  \<open>cdef float c_baseline = baseline\<close> and \<open>cdef float c_countlevel = countlevel\<close>.
\<close>

definition c_find_most_likely_counts_image_fp ::
  "fpu \<Rightarrow> long list \<Rightarrow> cfloat list list \<Rightarrow> cfloat list list \<Rightarrow> int \<Rightarrow> int \<Rightarrow> cfloat \<Rightarrow> cfloat
     \<Rightarrow> cfloat list list \<times> long list" where
  "c_find_most_likely_counts_image_fp fp tbl0 img result height width baseline countlevel =
     (let tbl = create_factorials_table factorials_table_length tbl0 in
      (fold (\<lambda>k res.
          fold (\<lambda>i res.
              res[k := (res ! k)[i :=
                fst (c_find_most_likely_counts_fp fp tbl
                       (rdiv (flt32 fp) (rsub (flt32 fp) (img ! k ! i) baseline) countlevel))]])
            [0..<nat width] res)
        [0..<nat height] result, tbl))"

definition find_most_likely_counts_fp ::
  "fpu \<Rightarrow> long list \<Rightarrow> ndarray \<Rightarrow> cfloat \<Rightarrow> cfloat \<Rightarrow> cfloat list list \<times> long list" where
  "find_most_likely_counts_fp fp tbl0 img baseline countlevel =
     c_find_most_likely_counts_image_fp fp tbl0 (rows img) (zeros (shape0 img) (shape1 img))
       (shape0 img) (shape1 img) (to_float fp baseline) (to_float fp countlevel)"

section \<open>Properties of the count search\<close>

declare find_loop.simps [simp del]

lemma fpown_Fin: "fpown (Fin a) n = Fin (a ^ n)"
  by (cases n) simp_all

lemma fpown_two:
  "fpown x 2 = (case x of Fin a \<Rightarrow> Fin (a ^ 2) | PInf \<Rightarrow> PInf | NInf \<Rightarrow> PInf | NaN \<Rightarrow> NaN)"
  by (cases x) (simp_all add: numeral_2_eq_2)

lemma count_probability_zero: "c_count_probability tbl 0 x = NaN"
  by (cases x) (simp_all add: c_count_probability_def float_of_int_def fpown_two fsub_def Let_def float_of_long_def)

lemma find_loop_exit:
  "\<not> counter < factorials_table_length \<Longrightarrow>
   find_loop tbl x counter m calls = (float_of_int factorials_table_length, calls)"
  by (subst find_loop.simps) simp

lemma find_loop_decrease:
  "counter < factorials_table_length \<Longrightarrow> flt (c_count_probability tbl counter x) m \<Longrightarrow>
   find_loop tbl x counter m calls = (float_of_int (counter - 1), calls @ [counter])"
  by (subst find_loop.simps) simp

lemma find_loop_continue:
  "counter < factorials_table_length \<Longrightarrow> \<not> flt (c_count_probability tbl counter x) m \<Longrightarrow>
   find_loop tbl x counter m calls =
   find_loop tbl x (counter + 1) (c_count_probability tbl counter x) (calls @ [counter])"
  by (subst find_loop.simps) simp

lemma find_loop_range:
  "0 \<le> counter \<Longrightarrow> counter \<le> factorials_table_length \<Longrightarrow>
   \<exists>n. fst (find_loop tbl x counter m calls) = float_of_int n \<and> counter - 1 \<le> n \<and> n \<le> factorials_table_length"
proof (induction tbl x counter m calls rule: find_loop.induct)
  case (1 tbl x counter m calls)
  show ?case
  proof (cases "counter < factorials_table_length")
    case False
    with 1(3) show ?thesis
      by (intro exI[of _ factorials_table_length]) (simp add: find_loop_exit)
  next
    case lt: True
    show ?thesis
    proof (cases "flt (c_count_probability tbl counter x) m")
      case True
      with lt show ?thesis
        by (intro exI[of _ "counter - 1"]) (simp add: find_loop_decrease)
    next
      case False
      from 1(1)[OF lt refl False] 1(2) lt
      obtain n where "fst (find_loop tbl x (counter + 1) (c_count_probability tbl counter x) (calls @ [counter])) = float_of_int n"
        "counter \<le> n" "n \<le> factorials_table_length" by auto
      with lt False show ?thesis
        by (intro exI[of _ n]) (simp add: find_loop_continue)
    qed
  qed
qed

lemma find_loop_start:
  "find_loop tbl x 0 (Fin 0) [] = find_loop tbl x 1 NaN [0]"
  by (simp add: find_loop_continue count_probability_zero factorials_table_length_def)

text \<open>
  C9: for every float \<open>x\<close> (finite of either sign, infinite or NaN) and every
  content of the table, \<open>c_find_most_likely_counts\<close> returns an integer value
  between 0 and \<open>factorials_table_length\<close> = 20; the first-decrease branch never
  returns -1, because the probability computed at counter 0 is NaN and compares
  below nothing.
\<close>

theorem count_in_range:
  "\<exists>n. fst (c_find_most_likely_counts tbl x) = float_of_int n \<and> 0 \<le> n \<and> n \<le> factorials_table_length"
proof (cases "feq (fround (fadd x (Fin (1 / 4)))) (Fin 0)")
  case True
  then have "fst (c_find_most_likely_counts tbl x) = float_of_int 0"
    by (simp add: c_find_most_likely_counts_def float_of_int_def)
  then show ?thesis by (auto simp: factorials_table_length_def)
next
  case False
  then have "c_find_most_likely_counts tbl x = find_loop tbl x 1 NaN [0]"
    by (simp add: c_find_most_likely_counts_def find_loop_start)
  moreover have "\<exists>n. fst (find_loop tbl x 1 NaN [0]) = float_of_int n \<and> 1 - 1 \<le> n \<and> n \<le> factorials_table_length"
    by (rule find_loop_range) (simp_all add: factorials_table_length_def)
  ultimately show ?thesis by simp
qed

declare legacy_find_loop.simps [simp del]

text \<open>
  C7: when \<open>round(x + 0.25)\<close> is 0 (\<open>round(x)\<close> in the earlier module) the search
  returns 0 and has called the probability function at no counter; this is so
  for \<open>x = 0.0\<close>.
\<close>

theorem zero_fast_path:
  "(feq (fround (fadd x (Fin (1 / 4)))) (Fin 0) \<longrightarrow> c_find_most_likely_counts tbl x = (Fin 0, []))
   \<and> (feq (fround x) (Fin 0) \<longrightarrow> legacy_find_most_likely_counts tbl x = (Fin 0, []))
   \<and> c_find_most_likely_counts tbl (Fin 0) = (Fin 0, [])
   \<and> legacy_find_most_likely_counts tbl (Fin 0) = (Fin 0, [])"
  by (simp add: c_find_most_likely_counts_def legacy_find_most_likely_counts_def)

theorem zero_fast_path_witness:
  "feq (fround (fadd (Fin (1 / 10)) (Fin (1 / 4)))) (Fin 0)
   \<and> c_find_most_likely_counts (replicate 20 0) (Fin (1 / 10)) = (Fin 0, [])
   \<and> feq (fround (Fin (1 / 10))) (Fin 0)
   \<and> legacy_find_most_likely_counts (replicate 20 0) (Fin (1 / 10)) = (Fin 0, [])"
proof -
  have a: "feq (fround (fadd (Fin (1 / 10)) (Fin (1 / 4)))) (Fin 0)" by simp
  have b: "feq (fround (Fin (1 / 10))) (Fin 0)" by simp
  from zero_fast_path[of "Fin (1 / 10)" "replicate 20 0"] a b show ?thesis by blast
qed

lemma find_loop_calls_prefix:
  "\<exists>rest. snd (find_loop tbl x counter m calls) = calls @ rest"
proof (induction tbl x counter m calls rule: find_loop.induct)
  case (1 tbl x counter m calls)
  show ?case
  proof (cases "counter < factorials_table_length")
    case False
    then show ?thesis by (simp add: find_loop_exit)
  next
    case lt: True
    show ?thesis
    proof (cases "flt (c_count_probability tbl counter x) m")
      case True
      with lt show ?thesis by (simp add: find_loop_decrease)
    next
      case False
      from 1[OF lt refl False] obtain rest where
        "snd (find_loop tbl x (counter + 1) (c_count_probability tbl counter x) (calls @ [counter])) =
         (calls @ [counter]) @ rest" by blast
      with lt False show ?thesis by (simp add: find_loop_continue)
    qed
  qed
qed

text \<open>
  C2, as the code has it: for every \<open>x\<close> that is not answered by the fast path,
  the first call of \<open>c_count_probability\<close> is at counter 0.  The general formula
  is evaluated there; its division by zero yields NaN, which is not below the
  initial maximum 0, so the search goes on to counter 1.
\<close>

theorem probability_evaluated_at_zero:
  assumes "\<not> feq (fround (fadd x (Fin (1 / 4)))) (Fin 0)"
  shows "snd (c_find_most_likely_counts tbl x) \<noteq> []
         \<and> hd (snd (c_find_most_likely_counts tbl x)) = 0
         \<and> c_count_probability tbl 0 x = NaN
         \<and> \<not> flt (c_count_probability tbl 0 x) (Fin 0)"
proof -
  obtain rest where "snd (find_loop tbl x 1 NaN [0]) = [0] @ rest"
    using find_loop_calls_prefix by blast
  with assms show ?thesis
    by (simp add: c_find_most_likely_counts_def find_loop_start count_probability_zero)
qed

theorem probability_evaluated_at_zero_witness:
  "\<not> feq (fround (fadd (Fin 1) (Fin (1 / 4)))) (Fin 0)
   \<and> hd (snd (c_find_most_likely_counts (replicate 20 0) (Fin 1))) = 0
   \<and> c_count_probability (replicate 20 0) 0 (Fin 1) = NaN"
proof -
  have a: "\<not> feq (fround (fadd (Fin 1) (Fin (1 / 4)))) (Fin 0)" by simp
  from probability_evaluated_at_zero[OF a, of "replicate 20 0"] a show ?thesis by blast
qed

text \<open>
  For \<open>x = 1\<close> the probability function is called at counter 0, and its value
  there is not 0.
\<close>

theorem probability_at_zero_counterexample:
  "0 \<in> set (snd (c_find_most_likely_counts
                   (create_factorials_table factorials_table_length (replicate 20 0)) (Fin 1)))
   \<and> c_count_probability
         (create_factorials_table factorials_table_length (replicate 20 0)) 0 (Fin 1) \<noteq> Fin 0"
proof -
  have a: "\<not> feq (fround (fadd (Fin 1) (Fin (1 / 4)))) (Fin 0)" by simp
  obtain rest where "snd (find_loop (create_factorials_table factorials_table_length (replicate 20 0)) (Fin 1) 1 NaN [0]) = [0] @ rest"
    using find_loop_calls_prefix by blast
  with a show ?thesis
    by (simp add: c_find_most_likely_counts_def find_loop_start count_probability_zero)
qed

section \<open>The factorial table\<close>

declare fact_loop.simps [simp del]

lemma fact_loop_length: "length (fact_loop len counter tbl) = length tbl"
  by (induction len counter tbl rule: fact_loop.induct) (subst fact_loop.simps, simp)

lemma fact_loop_fact:
  "1 \<le> counter \<Longrightarrow> counter \<le> len \<Longrightarrow> len \<le> int (length tbl) \<Longrightarrow>
   (\<And>j. j < nat counter \<Longrightarrow> tbl ! j = of_nat (fact j)) \<Longrightarrow>
   j < nat len \<Longrightarrow> fact_loop len counter tbl ! j = of_nat (fact j)"
proof (induction len counter tbl rule: fact_loop.induct)
  case (1 len counter tbl)
  show ?case
  proof (cases "counter < len")
    case False
    with 1 show ?thesis by (subst fact_loop.simps) simp
  next
    case True
    let ?t = "tbl[nat counter := tbl ! nat (counter - 1) * word_of_int counter]"
    have prev: "tbl ! nat (counter - 1) = of_nat (fact (nat (counter - 1)))"
      using 1(2) by (intro 1(5)) simp
    have "fact (nat counter) = fact (nat (counter - 1)) * nat counter"
      using 1(2) by (cases "nat counter") (simp_all add: nat_diff_distrib)
    then have new: "?t ! nat counter = of_nat (fact (nat counter))"
      using True 1(2,4) prev by simp
    have "fact_loop len (counter + 1) ?t ! j = of_nat (fact j)"
    proof (rule 1(1)[OF True])
      fix i assume "i < nat (counter + 1)"
      then have "i < nat counter \<or> i = nat counter" using 1(2) by auto
      then show "?t ! i = of_nat (fact i)" using new 1(5) by auto
    qed (use 1 True in simp_all)
    with True show ?thesis by (subst fact_loop.simps) simp
  qed
qed

lemma create_factorials_table_nth:
  assumes "length tbl = 20" "j < 20"
  shows "create_factorials_table factorials_table_length tbl ! j = of_nat (fact j)"
  unfolding create_factorials_table_def factorials_table_length_def
proof (rule fact_loop_fact)
  fix i assume "i < nat 1"
  then show "tbl[0 := 1] ! i = of_nat (fact i)" using assms by simp
qed (use assms in simp_all)

lemma fact_fits_long:
  assumes "j < 20"
  shows "sint (of_nat (fact j) :: 64 word) = int (fact j)"
proof -
  have "(fact j :: nat) \<le> fact 19" using assms by (intro fact_mono) simp
  also have "(fact 19 :: nat) < 2 ^ 63" by (simp add: fact_numeral)
  finally have "int (fact j) < 2 ^ 63" by (metis of_nat_less_iff of_nat_numeral of_nat_power)
  moreover have "- (2 ^ 63) \<le> int (fact j)" by (smt (verit) of_nat_0_le_iff zero_less_power)
  ultimately show ?thesis
    by (simp add: signed_of_nat signed_take_bit_int_eq_self)
qed

lemma table_entry:
  assumes "length tbl = 20" "j < 20"
  shows "float_of_long (create_factorials_table factorials_table_length tbl ! j) = Fin (fact j)"
  using assms by (simp add: float_of_long_def create_factorials_table_nth fact_fits_long)

section \<open>The probability as a real number\<close>

lemma count_probability_finite:
  assumes "length tbl0 = 20" "1 \<le> n" "n < 20"
  shows "c_count_probability (create_factorials_table factorials_table_length tbl0) (int n) (Fin x) =
         Fin (prob_value n x)"
proof -
  have pc: "0 < pi_const" by (simp add: pi_const_def)
  have n: "0 < real n" using assms by simp
  then have "0 < 2 * pi_const * real n ^ 2" using pc by simp
  then have sq: "0 < sqrt (2 * pi_const * real n ^ 2)" by (simp only: real_sqrt_gt_zero)
  have tb: "float_of_long (create_factorials_table factorials_table_length tbl0 ! n) = Fin (fact n)"
    using assms by (simp add: table_entry)
  have f: "(fact n :: real) \<noteq> 0" by simp
  have nn: "\<not> pi_const * (real n)\<^sup>2 < 0" using pc by (simp add: not_less)
  show ?thesis
    unfolding c_count_probability_def Let_def float_of_int_def fsub_def
    using sq n pc nn by (simp add: fpown_Fin tb prob_value_def)
qed

lemma prob_value_alt:
  assumes "1 \<le> n"
  shows "prob_value n x =
         real n ^ (n - 1) / (sqrt (2 * pi_const) * fact n) * exp (- ((x - real n) ^ 2 / (2 * real n ^ 2)) - real n)"
proof -
  define N where "N = real n"
  define K where "K = sqrt (2 * pi_const)"
  define F where "F = (fact n :: real)"
  define Pw where "Pw = real n ^ (n - 1)"
  define E1 where "E1 = exp (- 1 * (x - real n) ^ 2 / (2 * real n ^ 2))"
  define E2 where "E2 = exp (- 1 * real n)"
  have N: "0 < N" using assms by (simp add: N_def)
  have K: "0 < K" by (simp add: K_def pi_const_def)
  have F: "0 < F" by (simp add: F_def)
  have s: "sqrt (2 * pi_const * real n ^ 2) = K * N"
    using N by (simp add: real_sqrt_mult K_def N_def)
  have p: "real n ^ n = Pw * N"
    using assms by (cases n) (simp_all add: Pw_def N_def)
  have "- ((x - real n) ^ 2 / (2 * real n ^ 2)) - real n =
        - 1 * (x - real n) ^ 2 / (2 * real n ^ 2) + - 1 * real n" by simp
  then have e: "exp (- ((x - real n) ^ 2 / (2 * real n ^ 2)) - real n) = E1 * E2"
    unfolding E1_def E2_def by (simp only: exp_add)
  have "prob_value n x = 1 / (K * N) * E1 * (Pw * N * E2 / F)"
    unfolding prob_value_def s p E1_def E2_def F_def ..
  also have "\<dots> = Pw / (K * F) * (E1 * E2)"
    using N K F by (simp add: field_simps)
  finally show ?thesis
    unfolding e Pw_def K_def F_def .
qed

lemma prob_value_Suc:
  assumes "1 \<le> n"
  shows "prob_value (Suc n) x =
         real (Suc n) ^ (n - 1) / (sqrt (2 * pi_const) * fact n)
           * exp (- ((x - real (Suc n)) ^ 2 / (2 * real (Suc n) ^ 2)) - real (Suc n))"
proof -
  have "real (Suc n) ^ n = real (Suc n) ^ (n - 1) * real (Suc n)"
    using assms by (cases n) simp_all
  then show ?thesis
    by (subst prob_value_alt) (simp_all del: of_nat_Suc)
qed

lemma prob_value_up:
  assumes "1 \<le> n"
    and "- ((x - real n) ^ 2 / (2 * real n ^ 2)) - real n \<le>
         - ((x - real (Suc n)) ^ 2 / (2 * real (Suc n) ^ 2)) - real (Suc n)"
  shows "prob_value n x \<le> prob_value (Suc n) x"
proof -
  have pc: "0 < sqrt (2 * pi_const)" by (simp add: pi_const_def)
  have "real n ^ (n - 1) \<le> real (Suc n) ^ (n - 1)" by (intro power_mono) simp_all
  then have "real n ^ (n - 1) / (sqrt (2 * pi_const) * fact n) \<le>
             real (Suc n) ^ (n - 1) / (sqrt (2 * pi_const) * fact n)"
    using pc by (intro divide_right_mono) simp_all
  moreover have "exp (- ((x - real n) ^ 2 / (2 * real n ^ 2)) - real n) \<le>
      exp (- ((x - real (Suc n)) ^ 2 / (2 * real (Suc n) ^ 2)) - real (Suc n))"
    using assms(2) by (simp only: exp_le_cancel_iff)
  ultimately show ?thesis
    unfolding prob_value_alt[OF assms(1)] prob_value_Suc[OF assms(1)]
    by (intro mult_mono) (use pc in simp_all)
qed

lemma power_ratio_le_exp:
  assumes "1 \<le> n"
  shows "real (Suc n) ^ m \<le> real n ^ m * exp (real m / real n)"
proof -
  have n: "0 < real n" using assms by simp
  have "1 + 1 / real n \<le> exp (1 / real n)" by (rule exp_ge_add_one_self)
  then have "(1 + 1 / real n) ^ m \<le> exp (1 / real n) ^ m"
    using n by (intro power_mono) simp_all
  also have "\<dots> = exp (real m / real n)" by (simp add: exp_of_nat_mult[symmetric])
  finally have "(1 + 1 / real n) ^ m \<le> exp (real m / real n)" .
  moreover have "real (Suc n) = real n * (1 + 1 / real n)" using n by (simp add: field_simps)
  ultimately show ?thesis
    using n by (simp add: power_mult_distrib del: of_nat_Suc)
qed

lemma prob_value_down:
  assumes "1 \<le> n"
    and "- ((x - real (Suc n)) ^ 2 / (2 * real (Suc n) ^ 2)) - real (Suc n) + real (n - 1) / real n <
         - ((x - real n) ^ 2 / (2 * real n ^ 2)) - real n"
  shows "prob_value (Suc n) x < prob_value n x"
proof -
  let ?a = "- ((x - real n) ^ 2 / (2 * real n ^ 2)) - real n"
  let ?b = "- ((x - real (Suc n)) ^ 2 / (2 * real (Suc n) ^ 2)) - real (Suc n)"
  have pc: "0 < sqrt (2 * pi_const) * fact n" by (simp add: pi_const_def)
  have np: "0 < real n ^ (n - 1)" using assms(1) by simp
  have "real (Suc n) ^ (n - 1) * exp ?b \<le> real n ^ (n - 1) * exp (real (n - 1) / real n) * exp ?b"
    using power_ratio_le_exp[OF assms(1), of "n - 1"] by (intro mult_right_mono) simp_all
  also have "\<dots> = real n ^ (n - 1) * exp (?b + real (n - 1) / real n)"
    by (simp add: exp_add mult.commute mult.left_commute)
  also have "\<dots> < real n ^ (n - 1) * exp ?a"
    using assms(2) np by (simp only: mult_less_cancel_left_pos exp_less_cancel_iff)
  finally have "real (Suc n) ^ (n - 1) * exp ?b / (sqrt (2 * pi_const) * fact n) <
                real n ^ (n - 1) * exp ?a / (sqrt (2 * pi_const) * fact n)"
    using pc by (simp only: divide_strict_right_mono)
  then show ?thesis
    unfolding prob_value_alt[OF assms(1)] prob_value_Suc[OF assms(1)]
    by (simp add: field_simps del: of_nat_Suc)
qed

lemma small_cases:
  assumes "1 \<le> n" "n < 19"
  shows "n \<in> {1, 2, 3, 4, 5, 6, 7, 8, 9, 10, 11, 12, 13, 14, 15, 16, 17, 18 :: nat}"
  using assms by (simp only: insert_iff empty_iff) arith

lemma up_100:
  assumes "1 \<le> n" "n < 19"
  shows "- ((100 - real n) ^ 2 / (2 * real n ^ 2)) - real n \<le>
         - ((100 - real (Suc n)) ^ 2 / (2 * real (Suc n) ^ 2)) - real (Suc n)"
  using small_cases[OF assms] by (elim insertE emptyE) simp_all

lemma down_1:
  assumes "1 \<le> n" "n < 19"
  shows "- ((1 - real (Suc n)) ^ 2 / (2 * real (Suc n) ^ 2)) - real (Suc n) + real (n - 1) / real n <
         - ((1 - real n) ^ 2 / (2 * real n ^ 2)) - real n"
  using small_cases[OF assms] by (elim insertE emptyE) simp_all

section \<open>The probabilities at 100 and at 1 on exact arithmetic\<close>

lemma flt_NaN_right: "flt v NaN = False" by (cases v) simp_all

lemma not_fast_search:
  "\<not> feq (fround (fadd x (Fin (1 / 4)))) (Fin 0) \<Longrightarrow>
   c_find_most_likely_counts tbl x = find_loop tbl x 1 NaN [0]"
  by (simp add: c_find_most_likely_counts_def find_loop_start)

lemma count_probability_finite_int:
  assumes "length tbl0 = 20" "1 \<le> n" "n < 20"
  shows "c_count_probability (create_factorials_table factorials_table_length tbl0) n (Fin x) =
         Fin (prob_value (nat n) x)"
  using count_probability_finite[OF assms(1), of "nat n" x] assms(2,3) by simp

lemma no_decrease_100:
  assumes "length tbl0 = 20" "1 \<le> n" "n < 20"
  shows "\<not> flt (c_count_probability (create_factorials_table factorials_table_length tbl0) n (Fin 100))
              (c_count_probability (create_factorials_table factorials_table_length tbl0) (n - 1) (Fin 100))"
proof (cases "n = 1")
  case True
  then show ?thesis by (simp add: count_probability_zero flt_NaN_right)
next
  case False
  define k where "k = nat (n - 1)"
  have k: "1 \<le> k" "k < 19" "nat n = Suc k" "n - 1 = int k" "n = int (Suc k)"
    using False assms(2,3) by (simp_all add: k_def)
  have "prob_value k 100 \<le> prob_value (Suc k) 100"
    using up_100[OF k(1,2)] by (intro prob_value_up[OF k(1)]) simp
  moreover have "c_count_probability (create_factorials_table factorials_table_length tbl0) n (Fin 100) =
      Fin (prob_value (Suc k) 100)"
    unfolding k(5) using k(2) by (intro count_probability_finite[OF assms(1)]) simp_all
  moreover have "c_count_probability (create_factorials_table factorials_table_length tbl0) (n - 1) (Fin 100) =
      Fin (prob_value k 100)"
    unfolding k(4) using k(1,2) by (intro count_probability_finite[OF assms(1)]) simp_all
  ultimately show ?thesis by simp
qed

lemma decrease_1:
  assumes "length tbl0 = 20" "1 \<le> j" "j < 19"
  shows "flt (c_count_probability (create_factorials_table factorials_table_length tbl0) (j + 1) (Fin 1))
             (c_count_probability (create_factorials_table factorials_table_length tbl0) j (Fin 1))
       \<and> \<not> flt (c_count_probability (create_factorials_table factorials_table_length tbl0) j (Fin 1))
              (c_count_probability (create_factorials_table factorials_table_length tbl0) (j + 1) (Fin 1))"
proof -
  define k where "k = nat j"
  have k: "1 \<le> k" "k < 19" "j = int k" "j + 1 = int (Suc k)"
    using assms(2,3) by (simp_all add: k_def)
  have "prob_value (Suc k) 1 < prob_value k 1"
    using down_1[OF k(1,2)] by (intro prob_value_down[OF k(1)]) simp
  moreover have "c_count_probability (create_factorials_table factorials_table_length tbl0) (j + 1) (Fin 1) =
      Fin (prob_value (Suc k) 1)"
    unfolding k(4) using k(2) by (intro count_probability_finite[OF assms(1)]) simp_all
  moreover have "c_count_probability (create_factorials_table factorials_table_length tbl0) j (Fin 1) =
      Fin (prob_value k 1)"
    unfolding k(3) using k(1,2) by (intro count_probability_finite[OF assms(1)]) simp_all
  ultimately show ?thesis by simp
qed

section \<open>The count search with rounding\<close>

text \<open>Exact arithmetic is an instance: there the functions with rounding are the ones above.\<close>

declare find_loop_fp.simps [simp del]

lemma radd_exact: "radd Fin a b = fadd a b"
  by (cases a; cases b) simp_all

lemma rsub_exact: "rsub Fin a b = fsub a b"
  by (simp add: rsub_def fsub_def radd_exact)

lemma rmul_exact: "rmul Fin a b = fmul a b"
  by (cases a; cases b) simp_all

lemma rdiv_exact: "rdiv Fin a b = fdiv a b"
  by (cases a; cases b) simp_all

lemma rsqrt_exact: "rsqrt exact_fpu a = fsqrt a"
  by (cases a) (simp_all add: exact_fpu_def)

lemma rexp_exact: "rexp exact_fpu a = fexp a"
  by (cases a) (simp_all add: exact_fpu_def)

lemma rpown_exact: "rpown (\<lambda>a n. Fin (a ^ n)) x n = fpown x n"
  by (cases x; cases n) simp_all

lemma to_float_exact: "to_float exact_fpu v = v"
  by (cases v) (simp_all add: exact_fpu_def)

lemma float_of_int_fp_exact: "float_of_int_fp exact_fpu n = float_of_int n"
  by (simp add: float_of_int_fp_def float_of_int_def exact_fpu_def)

lemma float_of_long_fp_exact: "float_of_long_fp exact_fpu w = float_of_long w"
  by (simp add: float_of_long_fp_def float_of_long_def float_of_int_fp_exact float_of_int_def)

lemma exact_fpu_fields:
  "dbl exact_fpu = Fin" "flt32 exact_fpu = Fin"
  "lib_pow exact_fpu = (\<lambda>a n. Fin (a ^ n))" "lib_powf exact_fpu = (\<lambda>a n. Fin (a ^ n))"
  by (simp_all add: exact_fpu_def)

lemma c_count_probability_fp_exact:
  "c_count_probability_fp exact_fpu tbl n x = c_count_probability tbl n x"
  unfolding c_count_probability_fp_def c_count_probability_def Let_def exact_fpu_fields
    radd_exact rsub_exact rmul_exact rdiv_exact rsqrt_exact rexp_exact rpown_exact to_float_exact
    float_of_int_fp_exact float_of_long_fp_exact pi_const_def
  by (rule refl)

lemma find_loop_fp_exact:
  "find_loop_fp exact_fpu tbl x counter m calls = find_loop tbl x counter m calls"
proof (induction tbl x counter m calls rule: find_loop.induct)
  case (1 tbl x counter m calls)
  show ?case
  proof (cases "counter < factorials_table_length")
    case False
    then show ?thesis
      by (subst find_loop_fp.simps, subst find_loop.simps) (simp add: float_of_int_fp_exact)
  next
    case lt: True
    show ?thesis
    proof (cases "flt (c_count_probability tbl counter x) m")
      case True
      with lt show ?thesis
        by (subst find_loop_fp.simps, subst find_loop.simps)
           (simp add: float_of_int_fp_exact c_count_probability_fp_exact)
    next
      case False
      with lt 1[OF lt refl False] show ?thesis
        by (subst find_loop_fp.simps, subst find_loop.simps)
           (simp add: float_of_int_fp_exact c_count_probability_fp_exact)
    qed
  qed
qed

lemma c_find_most_likely_counts_fp_exact:
  "c_find_most_likely_counts_fp exact_fpu tbl x = c_find_most_likely_counts tbl x"
  by (simp add: c_find_most_likely_counts_fp_def c_find_most_likely_counts_def
      find_loop_fp_exact radd_exact exact_fpu_fields)

lemma find_most_likely_counts_fp_exact:
  "find_most_likely_counts_fp exact_fpu tbl0 img baseline countlevel =
   find_most_likely_counts tbl0 img baseline countlevel"
  by (simp add: find_most_likely_counts_fp_def find_most_likely_counts_def
      c_find_most_likely_counts_image_fp_def c_find_most_likely_counts_image_def
      c_find_most_likely_counts_fp_exact rdiv_exact rsub_exact exact_fpu_fields to_float_exact)

lemma find_loop_fp_exit:
  "\<not> counter < factorials_table_length \<Longrightarrow>
   find_loop_fp fp tbl x counter m calls = (float_of_int_fp fp factorials_table_length, calls)"
  by (subst find_loop_fp.simps) simp

lemma find_loop_fp_decrease:
  "counter < factorials_table_length \<Longrightarrow> flt (c_count_probability_fp fp tbl counter x) m \<Longrightarrow>
   find_loop_fp fp tbl x counter m calls = (float_of_int_fp fp (counter - 1), calls @ [counter])"
  by (subst find_loop_fp.simps) simp

lemma find_loop_fp_continue:
  "counter < factorials_table_length \<Longrightarrow> \<not> flt (c_count_probability_fp fp tbl counter x) m \<Longrightarrow>
   find_loop_fp fp tbl x counter m calls =
   find_loop_fp fp tbl x (counter + 1) (c_count_probability_fp fp tbl counter x) (calls @ [counter])"
  by (subst find_loop_fp.simps) simp

lemma find_loop_fp_no_decrease:
  "(\<forall>n. counter \<le> n \<and> n < factorials_table_length \<longrightarrow>
        \<not> flt (c_count_probability_fp fp tbl n x)
              (if n = counter then m else c_count_probability_fp fp tbl (n - 1) x)) \<Longrightarrow>
   fst (find_loop_fp fp tbl x counter m calls) = float_of_int_fp fp factorials_table_length"
proof (induction fp tbl x counter m calls rule: find_loop_fp.induct)
  case (1 fp tbl x counter m calls)
  show ?case
  proof (cases "counter < factorials_table_length")
    case False
    then show ?thesis by (simp add: find_loop_fp_exit)
  next
    case lt: True
    then have nd: "\<not> flt (c_count_probability_fp fp tbl counter x) m"
      using 1(2)[THEN spec, of counter] by simp
    have "fst (find_loop_fp fp tbl x (counter + 1) (c_count_probability_fp fp tbl counter x)
                 (calls @ [counter])) = float_of_int_fp fp factorials_table_length"
    proof (rule 1(1)[OF lt refl nd], intro allI impI)
      fix n assume n: "counter + 1 \<le> n \<and> n < factorials_table_length"
      then have "\<not> flt (c_count_probability_fp fp tbl n x) (c_count_probability_fp fp tbl (n - 1) x)"
        using 1(2)[THEN spec, of n] by simp
      then show "\<not> flt (c_count_probability_fp fp tbl n x)
              (if n = counter + 1 then c_count_probability_fp fp tbl counter x
               else c_count_probability_fp fp tbl (n - 1) x)"
        by (cases "n = counter + 1") simp_all
    qed
    with lt nd show ?thesis by (simp add: find_loop_fp_continue)
  qed
qed

lemma find_loop_fp_first_decrease:
  "counter \<le> n \<Longrightarrow> n < factorials_table_length \<Longrightarrow>
   flt (c_count_probability_fp fp tbl n x)
       (if n = counter then m else c_count_probability_fp fp tbl (n - 1) x) \<Longrightarrow>
   (\<forall>j. counter \<le> j \<and> j < n \<longrightarrow>
        \<not> flt (c_count_probability_fp fp tbl j x)
              (if j = counter then m else c_count_probability_fp fp tbl (j - 1) x)) \<Longrightarrow>
   fst (find_loop_fp fp tbl x counter m calls) = float_of_int_fp fp (n - 1)"
proof (induction fp tbl x counter m calls rule: find_loop_fp.induct)
  case (1 fp tbl x counter m calls)
  from 1(2,3) have lt: "counter < factorials_table_length" by simp
  show ?case
  proof (cases "counter = n")
    case True
    with 1(4) lt show ?thesis by (simp add: find_loop_fp_decrease)
  next
    case False
    with 1(2) have cn: "counter < n" by simp
    then have nd: "\<not> flt (c_count_probability_fp fp tbl counter x) m"
      using 1(5)[THEN spec, of counter] by simp
    have "fst (find_loop_fp fp tbl x (counter + 1) (c_count_probability_fp fp tbl counter x)
                 (calls @ [counter])) = float_of_int_fp fp (n - 1)"
    proof (rule 1(1)[OF lt refl nd])
      show "counter + 1 \<le> n" using cn by simp
      show "n < factorials_table_length" by (rule 1(3))
      show "flt (c_count_probability_fp fp tbl n x)
             (if n = counter + 1 then c_count_probability_fp fp tbl counter x
              else c_count_probability_fp fp tbl (n - 1) x)"
        using 1(4) False by (cases "n = counter + 1") simp_all
      show "\<forall>j. counter + 1 \<le> j \<and> j < n \<longrightarrow>
        \<not> flt (c_count_probability_fp fp tbl j x)
              (if j = counter + 1 then c_count_probability_fp fp tbl counter x
               else c_count_probability_fp fp tbl (j - 1) x)"
      proof (intro allI impI)
        fix j assume j: "counter + 1 \<le> j \<and> j < n"
        then have "\<not> flt (c_count_probability_fp fp tbl j x) (c_count_probability_fp fp tbl (j - 1) x)"
          using 1(5)[THEN spec, of j] by simp
        then show "\<not> flt (c_count_probability_fp fp tbl j x)
              (if j = counter + 1 then c_count_probability_fp fp tbl counter x
               else c_count_probability_fp fp tbl (j - 1) x)"
          by (cases "j = counter + 1") simp_all
      qed
    qed
    with lt nd show ?thesis by (simp add: find_loop_fp_continue)
  qed
qed

lemma float_of_int_fp_small:
  "- 16777216 \<le> n \<Longrightarrow> n \<le> 16777216 \<Longrightarrow> float_of_int_fp fp n = Fin (of_int n)"
  by (simp add: float_of_int_fp_def)

text \<open>The order of the values that are not NaN.\<close>

lemma not_flt_fle: "a \<noteq> NaN \<Longrightarrow> b \<noteq> NaN \<Longrightarrow> (\<not> flt a b) = fle b a"
  by (cases a; cases b) auto

lemma fle_trans: "fle a b \<Longrightarrow> fle b c \<Longrightarrow> fle a c"
  by (cases a; cases b; cases c) auto

lemma fle_refl: "a \<noteq> NaN \<Longrightarrow> fle a a"
  by (cases a) auto

lemma flt_not_NaN: "flt a b \<Longrightarrow> a \<noteq> NaN \<and> b \<noteq> NaN"
  by (cases a; cases b) auto

lemma fle_not_flt: "fle a b \<Longrightarrow> \<not> flt b a"
  by (cases a; cases b) auto

lemma fle_chain_up:
  fixes f :: "int \<Rightarrow> cfloat"
  assumes "\<forall>j. a < j \<and> j \<le> b \<longrightarrow> fle (f (j - 1)) (f j)" and "f b \<noteq> NaN"
  shows "a \<le> b - int k \<Longrightarrow> fle (f (b - int k)) (f b)"
proof (induction k)
  case 0
  show ?case using assms(2) by (simp add: fle_refl)
next
  case (Suc k)
  have eq: "b - int (Suc k) = b - int k - 1" by simp
  have "a < b - int k \<and> b - int k \<le> b" using Suc.prems by simp
  then have "fle (f (b - int k - 1)) (f (b - int k))" using assms(1) by blast
  moreover have "fle (f (b - int k)) (f b)" using Suc by simp
  ultimately show ?case unfolding eq by (rule fle_trans)
qed

lemma fle_chain_down:
  fixes f :: "int \<Rightarrow> cfloat"
  assumes "\<forall>j. a \<le> j \<and> j < b \<longrightarrow> fle (f (j + 1)) (f j)" and "f a \<noteq> NaN"
  shows "a + int k \<le> b \<Longrightarrow> fle (f (a + int k)) (f a)"
proof (induction k)
  case 0
  show ?case using assms(2) by (simp add: fle_refl)
next
  case (Suc k)
  have eq: "a + int (Suc k) = a + int k + 1" by simp
  have "a \<le> a + int k \<and> a + int k < b" using Suc.prems by simp
  then have "fle (f (a + int k + 1)) (f (a + int k))" using assms(1) by blast
  moreover have "fle (f (a + int k)) (f a)" using Suc by simp
  ultimately show ?case unfolding eq by (rule fle_trans)
qed

text \<open>
  C3: on every platform arithmetic and for every \<open>x\<close> not answered by the fast
  path, if \<open>n \<ge> 1\<close> is the first counter at which the test of the loop succeeds,
  that is \<open>P(n,x) < P(n-1,x)\<close> on the \<open>float\<close> values the program compares (the test at
  counter 0 is against the initial maximum 0), the search returns \<open>n - 1\<close>.  If
  moreover the sequence \<open>P(0,x), \<dots>, P(19,x)\<close> is unimodal (the values at the
  counters 1 to 19 are numbers, the sequence never decreases before some index
  \<open>m\<close> and never increases from \<open>m\<close> on, under the comparison \<open><\<close> of C), then no
  entry of the table range has a probability above the one at the returned
  count.
\<close>

theorem first_decrease_is_argmax:
  assumes "\<not> feq (fround (radd (dbl fp) x (Fin (1 / 4)))) (Fin 0)"
    and "1 \<le> n" and "n < factorials_table_length"
    and "flt (c_count_probability_fp fp tbl n x) (c_count_probability_fp fp tbl (n - 1) x)"
    and "\<forall>j. 0 \<le> j \<and> j < n \<longrightarrow>
           \<not> flt (c_count_probability_fp fp tbl j x)
                  (if j = 0 then Fin 0 else c_count_probability_fp fp tbl (j - 1) x)"
  shows "fst (c_find_most_likely_counts_fp fp tbl x) = Fin (of_int (n - 1))
    \<and> ((\<forall>j. 1 \<le> j \<and> j < factorials_table_length \<longrightarrow> c_count_probability_fp fp tbl j x \<noteq> NaN)
       \<and> (\<forall>j. 0 \<le> j \<and> j < m \<longrightarrow>
            \<not> flt (c_count_probability_fp fp tbl (j + 1) x) (c_count_probability_fp fp tbl j x))
       \<and> (\<forall>j. m \<le> j \<and> j < factorials_table_length - 1 \<longrightarrow>
            \<not> flt (c_count_probability_fp fp tbl j x) (c_count_probability_fp fp tbl (j + 1) x))
       \<longrightarrow> (\<forall>j. 0 \<le> j \<and> j < factorials_table_length \<longrightarrow>
            \<not> flt (c_count_probability_fp fp tbl (n - 1) x) (c_count_probability_fp fp tbl j x)))"
proof (intro conjI impI)
  have n20: "n < 20" using assms(3) by (simp add: factorials_table_length_def)
  have "fst (find_loop_fp fp tbl x 0 (Fin 0) []) = float_of_int_fp fp (n - 1)"
  proof (rule find_loop_fp_first_decrease[OF _ assms(3)])
    show "0 \<le> n" using assms(2) by simp
    show "flt (c_count_probability_fp fp tbl n x)
            (if n = 0 then Fin 0 else c_count_probability_fp fp tbl (n - 1) x)"
      using assms(2,4) by simp
    show "\<forall>j. 0 \<le> j \<and> j < n \<longrightarrow>
        \<not> flt (c_count_probability_fp fp tbl j x)
              (if j = 0 then Fin 0 else c_count_probability_fp fp tbl (j - 1) x)"
      by (rule assms(5))
  qed
  moreover have "float_of_int_fp fp (n - 1) = Fin (of_int (n - 1))"
    using assms(2) n20 by (intro float_of_int_fp_small) simp_all
  ultimately show "fst (c_find_most_likely_counts_fp fp tbl x) = Fin (of_int (n - 1))"
    using assms(1) by (simp add: c_find_most_likely_counts_fp_def)
next
  define P where "P j = c_count_probability_fp fp tbl j x" for j
  assume uni: "(\<forall>j. 1 \<le> j \<and> j < factorials_table_length \<longrightarrow> c_count_probability_fp fp tbl j x \<noteq> NaN)
       \<and> (\<forall>j. 0 \<le> j \<and> j < m \<longrightarrow>
            \<not> flt (c_count_probability_fp fp tbl (j + 1) x) (c_count_probability_fp fp tbl j x))
       \<and> (\<forall>j. m \<le> j \<and> j < factorials_table_length - 1 \<longrightarrow>
            \<not> flt (c_count_probability_fp fp tbl j x) (c_count_probability_fp fp tbl (j + 1) x))"
  have n20: "n < 20" using assms(3) by (simp add: factorials_table_length_def)
  from uni have u0: "\<forall>j. 1 \<le> j \<and> j < factorials_table_length \<longrightarrow> P j \<noteq> NaN"
    and u1: "\<forall>j. 0 \<le> j \<and> j < m \<longrightarrow> \<not> flt (P (j + 1)) (P j)"
    and u2: "\<forall>j. m \<le> j \<and> j < factorials_table_length - 1 \<longrightarrow> \<not> flt (P j) (P (j + 1))"
    unfolding P_def by (rule conjunct1, rule conjunct2[THEN conjunct1], rule conjunct2[THEN conjunct2])
  have nn: "P j \<noteq> NaN" if "1 \<le> j" "j < 20" for j
    using u0[THEN spec, of j] that by (simp add: factorials_table_length_def)
  have dec: "flt (P n) (P (n - 1))" using assms(4) by (simp add: P_def)
  have top: "P (n - 1) \<noteq> NaN" using flt_not_NaN[OF dec] by simp
  have first: "\<not> flt (P j) (P (j - 1))" if "1 \<le> j" "j < n" for j
    using assms(5)[THEN spec, of j] that by (simp add: P_def)
  have m: "m \<le> n - 1"
  proof (rule ccontr)
    assume "\<not> m \<le> n - 1"
    then have "\<not> flt (P (n - 1 + 1)) (P (n - 1))"
      using u1[THEN spec, of "n - 1"] assms(2) by simp
    with dec show False by simp
  qed
  have down: "\<forall>j. n - 1 \<le> j \<and> j < 19 \<longrightarrow> fle (P (j + 1)) (P j)"
  proof (intro allI impI)
    fix j assume j: "n - 1 \<le> j \<and> j < 19"
    then have "m \<le> j \<and> j < factorials_table_length - 1"
      using m by (simp add: factorials_table_length_def)
    then have a: "\<not> flt (P j) (P (j + 1))" using u2[THEN spec, of j] by simp
    have "P j \<noteq> NaN"
    proof (cases "j = n - 1")
      case True
      then show ?thesis using top by simp
    next
      case False
      then show ?thesis using j assms(2) by (intro nn) simp_all
    qed
    moreover have "P (j + 1) \<noteq> NaN" using j assms(2) by (intro nn) simp_all
    ultimately show "fle (P (j + 1)) (P j)" using a by (simp add: not_flt_fle)
  qed
  have up: "\<forall>j. 1 < j \<and> j \<le> n - 1 \<longrightarrow> fle (P (j - 1)) (P j)"
  proof (intro allI impI)
    fix j assume j: "1 < j \<and> j \<le> n - 1"
    then have a: "\<not> flt (P j) (P (j - 1))" by (intro first) simp_all
    have "P j \<noteq> NaN" "P (j - 1) \<noteq> NaN" using j n20 by (simp_all add: nn)
    then show "fle (P (j - 1)) (P j)" using a by (simp add: not_flt_fle)
  qed
  have upper: "fle (P j) (P (n - 1))" if "1 \<le> j" "j \<le> n - 1" for j
  proof -
    have "fle (P (n - 1 - int (nat (n - 1 - j)))) (P (n - 1))"
      using that by (intro fle_chain_up[OF up top]) simp
    then show ?thesis using that by simp
  qed
  have lower: "fle (P j) (P (n - 1))" if "n - 1 \<le> j" "j < 20" for j
  proof -
    have "fle (P (n - 1 + int (nat (j - (n - 1))))) (P (n - 1))"
      using that by (intro fle_chain_down[OF down top]) simp
    then show ?thesis using that by simp
  qed
  show "\<forall>j. 0 \<le> j \<and> j < factorials_table_length \<longrightarrow>
            \<not> flt (c_count_probability_fp fp tbl (n - 1) x) (c_count_probability_fp fp tbl j x)"
  proof (intro allI impI)
    fix j assume j: "0 \<le> j \<and> j < factorials_table_length"
    then have j20: "j < 20" by (simp add: factorials_table_length_def)
    consider "n - 1 \<le> j" | "1 \<le> j" "j \<le> n - 1" | "j = 0" "1 \<le> n - 1" using j by linarith
    then have "\<not> flt (P (n - 1)) (P j)"
    proof cases
      case 1
      then show ?thesis using lower[OF 1 j20] by (simp add: fle_not_flt)
    next
      case 2
      then show ?thesis using upper[OF 2] by (simp add: fle_not_flt)
    next
      case 3
      show ?thesis
      proof (cases "P 0 = NaN")
        case True
        then show ?thesis using 3 by (cases "P (n - 1)") simp_all
      next
        case False
        have "\<not> flt (P 1) (P (1 - 1))" using 3 by (intro first) simp_all
        then have "fle (P 0) (P 1)"
          using False nn[of 1] by (simp add: not_flt_fle)
        moreover have "fle (P 1) (P (n - 1))" using 3 by (intro upper) simp_all
        ultimately have "fle (P 0) (P (n - 1))" by (rule fle_trans)
        then show ?thesis using 3 by (simp add: fle_not_flt)
      qed
    qed
    then show "\<not> flt (c_count_probability_fp fp tbl (n - 1) x) (c_count_probability_fp fp tbl j x)"
      by (simp add: P_def)
  qed
qed

theorem first_decrease_is_argmax_witness:
  "fst (c_find_most_likely_counts_fp exact_fpu
          (create_factorials_table factorials_table_length (replicate 20 0)) (Fin 1)) = Fin 1
   \<and> flt (c_count_probability_fp exact_fpu
            (create_factorials_table factorials_table_length (replicate 20 0)) 2 (Fin 1))
          (c_count_probability_fp exact_fpu
            (create_factorials_table factorials_table_length (replicate 20 0)) 1 (Fin 1))
   \<and> \<not> flt (c_count_probability_fp exact_fpu
              (create_factorials_table factorials_table_length (replicate 20 0)) 1 (Fin 1))
            (c_count_probability_fp exact_fpu
              (create_factorials_table factorials_table_length (replicate 20 0)) 7 (Fin 1))"
proof -
  let ?T = "create_factorials_table factorials_table_length (replicate 20 0)"
  let ?P = "\<lambda>j. c_count_probability_fp exact_fpu ?T j (Fin 1)"
  have len: "length (replicate 20 (0 :: long)) = 20" by simp
  have P: "?P j = c_count_probability ?T j (Fin 1)" for j
    by (rule c_count_probability_fp_exact)
  have fast: "\<not> feq (fround (radd (dbl exact_fpu) (Fin 1) (Fin (1 / 4)))) (Fin 0)"
    by (simp add: exact_fpu_fields)
  have dec: "flt (?P 2) (?P (2 - 1))"
    unfolding P using decrease_1[OF len, of 1] by simp
  have first: "\<forall>j. 0 \<le> j \<and> j < 2 \<longrightarrow>
      \<not> flt (?P j) (if j = 0 then Fin 0 else ?P (j - 1))"
  proof (intro allI impI)
    fix j :: int assume "0 \<le> j \<and> j < 2"
    then have "j = 0 \<or> j = 1" by auto
    then show "\<not> flt (?P j) (if j = 0 then Fin 0 else ?P (j - 1))"
      unfolding P by (auto simp: count_probability_zero flt_NaN_right)
  qed
  have uni: "(\<forall>j. 1 \<le> j \<and> j < factorials_table_length \<longrightarrow> ?P j \<noteq> NaN)
       \<and> (\<forall>j. 0 \<le> j \<and> j < 1 \<longrightarrow> \<not> flt (?P (j + 1)) (?P j))
       \<and> (\<forall>j. 1 \<le> j \<and> j < factorials_table_length - 1 \<longrightarrow> \<not> flt (?P j) (?P (j + 1)))"
  proof (intro conjI allI impI)
    fix j :: int assume "1 \<le> j \<and> j < factorials_table_length"
    then have "c_count_probability ?T j (Fin 1) = Fin (prob_value (nat j) 1)"
      by (intro count_probability_finite_int[OF len]) (simp_all add: factorials_table_length_def)
    then show "?P j \<noteq> NaN" unfolding P by simp
  next
    fix j :: int assume "0 \<le> j \<and> j < 1"
    then have "j = 0" by simp
    then show "\<not> flt (?P (j + 1)) (?P j)"
      unfolding P by (simp add: count_probability_zero flt_NaN_right)
  next
    fix j :: int assume "1 \<le> j \<and> j < factorials_table_length - 1"
    then show "\<not> flt (?P j) (?P (j + 1))"
      unfolding P using decrease_1[OF len, of j] by (simp add: factorials_table_length_def)
  qed
  have n: "(1 :: int) \<le> 2" "(2 :: int) < factorials_table_length"
    by (simp_all add: factorials_table_length_def)
  from first_decrease_is_argmax[OF fast n dec first, of 1] uni
  have "fst (c_find_most_likely_counts_fp exact_fpu ?T (Fin 1)) = Fin (of_int (2 - 1))"
    and "\<forall>j. 0 \<le> j \<and> j < factorials_table_length \<longrightarrow> \<not> flt (?P (2 - 1)) (?P j)"
    by blast+
  from this(1) this(2)[THEN spec, of 7] dec show ?thesis
    by (simp add: factorials_table_length_def)
qed

text \<open>
  C6, as the code has it: on every platform arithmetic, when the test
  \<open>current_probability < max_probability\<close> succeeds at no counter from 0 to 19, on
  the \<open>float\<close> values the program compares, the search returns
  \<open>factorials_table_length\<close> = 20.  With exact arithmetic \<open>x = 100\<close> is such an input;
  \<open>x = 25\<close> is not.
\<close>

theorem cap_when_no_decrease:
  assumes "\<not> feq (fround (radd (dbl fp) x (Fin (1 / 4)))) (Fin 0)"
    and "\<forall>n. 0 \<le> n \<and> n < factorials_table_length \<longrightarrow>
           \<not> flt (c_count_probability_fp fp tbl n x)
                  (if n = 0 then Fin 0 else c_count_probability_fp fp tbl (n - 1) x)"
  shows "fst (c_find_most_likely_counts_fp fp tbl x) = Fin 20"
proof -
  have "fst (find_loop_fp fp tbl x 0 (Fin 0) []) = float_of_int_fp fp factorials_table_length"
    by (rule find_loop_fp_no_decrease) (rule assms(2))
  moreover have "float_of_int_fp fp factorials_table_length = Fin 20"
    by (simp add: float_of_int_fp_def factorials_table_length_def)
  ultimately show ?thesis using assms(1) by (simp add: c_find_most_likely_counts_fp_def)
qed

theorem cap_when_no_decrease_witness:
  "\<not> feq (fround (radd (dbl exact_fpu) (Fin 100) (Fin (1 / 4)))) (Fin 0)
   \<and> fst (c_find_most_likely_counts_fp exact_fpu
            (create_factorials_table factorials_table_length (replicate 20 0)) (Fin 100)) = Fin 20"
proof -
  let ?T = "create_factorials_table factorials_table_length (replicate 20 0)"
  let ?P = "\<lambda>j. c_count_probability_fp exact_fpu ?T j (Fin 100)"
  have len: "length (replicate 20 (0 :: long)) = 20" by simp
  have P: "?P j = c_count_probability ?T j (Fin 100)" for j
    by (rule c_count_probability_fp_exact)
  have a: "\<not> feq (fround (radd (dbl exact_fpu) (Fin 100) (Fin (1 / 4)))) (Fin 0)"
    by (simp add: exact_fpu_fields)
  have b: "\<forall>n. 0 \<le> n \<and> n < factorials_table_length \<longrightarrow>
           \<not> flt (?P n) (if n = 0 then Fin 0 else ?P (n - 1))"
  proof (intro allI impI)
    fix n :: int assume n: "0 \<le> n \<and> n < factorials_table_length"
    show "\<not> flt (?P n) (if n = 0 then Fin 0 else ?P (n - 1))"
    proof (cases "n = 0")
      case True
      then show ?thesis unfolding P by (simp add: count_probability_zero)
    next
      case False
      then show ?thesis
        unfolding P using n no_decrease_100[OF len, of n]
        by (simp add: factorials_table_length_def)
    qed
  qed
  from cap_when_no_decrease[OF a b] a show ?thesis by simp
qed

lemma find_loop_between:
  "counter \<le> n \<Longrightarrow> n < factorials_table_length \<Longrightarrow>
   flt (c_count_probability tbl n x)
       (if n = counter then m else c_count_probability tbl (n - 1) x) \<Longrightarrow>
   \<exists>r. fst (find_loop tbl x counter m calls) = float_of_int r \<and> counter - 1 \<le> r \<and> r \<le> n - 1"
proof (induction tbl x counter m calls rule: find_loop.induct)
  case (1 tbl x counter m calls)
  from 1(2,3) have lt: "counter < factorials_table_length" by simp
  show ?case
  proof (cases "flt (c_count_probability tbl counter x) m")
    case True
    with lt 1(2) show ?thesis
      by (intro exI[of _ "counter - 1"]) (simp add: find_loop_decrease)
  next
    case nd: False
    with 1(4) have ne: "counter \<noteq> n" by auto
    have "\<exists>r. fst (find_loop tbl x (counter + 1) (c_count_probability tbl counter x) (calls @ [counter])) =
              float_of_int r \<and> counter + 1 - 1 \<le> r \<and> r \<le> n - 1"
    proof (rule 1(1)[OF lt refl nd])
      show "counter + 1 \<le> n" using ne 1(2) by simp
      show "n < factorials_table_length" by (rule 1(3))
      show "flt (c_count_probability tbl n x)
             (if n = counter + 1 then c_count_probability tbl counter x
              else c_count_probability tbl (n - 1) x)"
        using 1(4) ne by (cases "n = counter + 1") simp_all
    qed
    then obtain r where "fst (find_loop tbl x (counter + 1) (c_count_probability tbl counter x) (calls @ [counter])) =
              float_of_int r" "counter \<le> r" "r \<le> n - 1" by auto
    with lt nd show ?thesis
      by (intro exI[of _ r]) (simp add: find_loop_continue)
  qed
qed

text \<open>
  For \<open>x = 25\<close> the probability at counter 19 is below the one at counter 18, so
  the search has returned before the end of the table, with a value between 0 and
  18 and not the cap.
\<close>

theorem cap_at_25_counterexample:
  "fst (c_find_most_likely_counts
          (create_factorials_table factorials_table_length (replicate 20 0)) (Fin 25))
     \<in> set (map float_of_int [0..18])
   \<and> fst (c_find_most_likely_counts
          (create_factorials_table factorials_table_length (replicate 20 0)) (Fin 25))
     \<noteq> float_of_int factorials_table_length"
proof -
  let ?T = "create_factorials_table factorials_table_length (replicate 20 0)"
  have a: "\<not> feq (fround (fadd (Fin 25) (Fin (1 / 4)))) (Fin 0)" by simp
  have len: "length (replicate 20 (0 :: long)) = 20" by simp
  have "prob_value (Suc 18) 25 < prob_value 18 25"
    by (rule prob_value_down) simp_all
  moreover have "c_count_probability ?T 19 (Fin 25) = Fin (prob_value (Suc 18) 25)"
    using count_probability_finite[OF len, of 19 25] by simp
  moreover have "c_count_probability ?T 18 (Fin 25) = Fin (prob_value 18 25)"
    using count_probability_finite[OF len, of 18 25] by simp
  ultimately have "flt (c_count_probability ?T 19 (Fin 25))
       (if (19 :: int) = 1 then NaN else c_count_probability ?T (19 - 1) (Fin 25))"
    by simp
  from find_loop_between[OF _ _ this, of "[0]"]
  obtain r where r: "fst (find_loop ?T (Fin 25) 1 NaN [0]) = float_of_int r" "0 \<le> r" "r \<le> 18"
    by (auto simp: factorials_table_length_def)
  then have "r \<in> set [0..18]" by simp
  then have "float_of_int r \<in> set (map float_of_int [0..18])" by (simp only: set_map image_eqI)
  moreover have "float_of_int r \<noteq> float_of_int factorials_table_length"
    using r(3) by (simp add: float_of_int_def factorials_table_length_def)
  ultimately show ?thesis
    by (simp only: not_fast_search[OF a] r(1) simp_thms)
qed

section \<open>The direct counting mode\<close>

lemma inner_fold:
  assumes "k < length res"
  shows "fold (\<lambda>i r. r[k := (r ! k)[i := f i]]) [0..<w] res =
         res[k := map (\<lambda>i. if i < w then f i else res ! k ! i) [0..<length (res ! k)]]"
proof (induction w)
  case 0
  show ?case by (simp add: map_nth)
next
  case (Suc w)
  have "(map (\<lambda>i. if i < w then f i else res ! k ! i) [0..<length (res ! k)])[w := f w] =
        map (\<lambda>i. if i < Suc w then f i else res ! k ! i) [0..<length (res ! k)]"
    by (rule nth_equalityI) (auto simp: nth_list_update less_Suc_eq)
  with Suc assms show ?case by simp
qed

lemma outer_fold:
  assumes "h \<le> length res"
  shows "fold (\<lambda>k r. fold (\<lambda>i r. r[k := (r ! k)[i := F k i]]) [0..<w] r) [0..<h] res =
         map (\<lambda>k. if k < h then map (\<lambda>i. if i < w then F k i else res ! k ! i) [0..<length (res ! k)]
                    else res ! k) [0..<length res]"
  using assms
proof (induction h)
  case 0
  show ?case by (simp add: map_nth)
next
  case (Suc h)
  let ?r = "map (\<lambda>k. if k < h then map (\<lambda>i. if i < w then F k i else res ! k ! i) [0..<length (res ! k)]
                    else res ! k) [0..<length res]"
  have h: "h < length ?r" using Suc.prems by simp
  have "fold (\<lambda>k r. fold (\<lambda>i r. r[k := (r ! k)[i := F k i]]) [0..<w] r) [0..<Suc h] res =
        fold (\<lambda>i r. r[h := (r ! h)[i := F h i]]) [0..<w] ?r"
    using Suc by simp
  also have "\<dots> = ?r[h := map (\<lambda>i. if i < w then F h i else ?r ! h ! i) [0..<length (?r ! h)]]"
    by (rule inner_fold[OF h])
  also have "\<dots> = map (\<lambda>k. if k < Suc h then map (\<lambda>i. if i < w then F k i else res ! k ! i) [0..<length (res ! k)]
                    else res ! k) [0..<length res]"
    using Suc.prems by (intro nth_equalityI) (auto simp: nth_list_update less_Suc_eq)
  finally show ?case .
qed

text \<open>
  C8: in the direct counting mode, on every platform arithmetic, the result at
  every pixel \<open>(k, i)\<close> of the input is the count search applied to
  \<open>(pixel - baseline) / countlevel\<close>, computed as the source computes it (a \<open>float\<close>
  subtraction and a \<open>float\<close> division of the converted arguments); another image of
  the same shape with the same pixel at \<open>(k, i)\<close> gives the same result there.
\<close>

theorem direct_counting_pixelwise:
  assumes "well_shaped img" and "k < nat (shape0 img)" and "i < nat (shape1 img)"
  shows "fst (find_most_likely_counts_fp fp tbl0 img baseline countlevel) ! k ! i =
           fst (c_find_most_likely_counts_fp fp
                  (create_factorials_table factorials_table_length tbl0)
                  (rdiv (flt32 fp) (rsub (flt32 fp) (rows img ! k ! i) (to_float fp baseline))
                        (to_float fp countlevel)))
         \<and> (\<forall>img'. well_shaped img' \<and> shape0 img' = shape0 img \<and> shape1 img' = shape1 img
                  \<and> rows img' ! k ! i = rows img ! k ! i \<longrightarrow>
               fst (find_most_likely_counts_fp fp tbl0 img' baseline countlevel) ! k ! i =
               fst (find_most_likely_counts_fp fp tbl0 img baseline countlevel) ! k ! i)"
proof -
  have px: "fst (find_most_likely_counts_fp fp tbl0 a baseline countlevel) ! k ! i =
           fst (c_find_most_likely_counts_fp fp
                  (create_factorials_table factorials_table_length tbl0)
                  (rdiv (flt32 fp) (rsub (flt32 fp) (rows a ! k ! i) (to_float fp baseline))
                        (to_float fp countlevel)))"
    if "k < nat (shape0 a)" and "i < nat (shape1 a)" for a
  proof -
    have len: "nat (shape0 a) \<le> length (zeros (shape0 a) (shape1 a))"
      by (simp add: zeros_def)
    show ?thesis
      unfolding find_most_likely_counts_fp_def c_find_most_likely_counts_image_fp_def Let_def fst_conv
      by (subst outer_fold[OF len]) (use that in \<open>simp add: zeros_def\<close>)
  qed
  show ?thesis using px[of img] px assms by auto
qed

theorem direct_counting_pixelwise_witness:
  "well_shaped \<lparr>shape0 = 1, shape1 = 3, rows = [[Fin (1 / 10), Fin (2 / 10), Fin (31 / 100)]]\<rparr>
   \<and> well_shaped \<lparr>shape0 = 1, shape1 = 3, rows = [[Fin 7, Fin 9, Fin (31 / 100)]]\<rparr>
   \<and> fst (find_most_likely_counts_fp exact_fpu (replicate 20 0)
            \<lparr>shape0 = 1, shape1 = 3, rows = [[Fin (1 / 10), Fin (2 / 10), Fin (31 / 100)]]\<rparr>
            (Fin 0) (Fin (1 / 10))) ! 0 ! 2 =
       fst (c_find_most_likely_counts_fp exact_fpu
              (create_factorials_table factorials_table_length (replicate 20 0)) (Fin (31 / 10)))
   \<and> fst (find_most_likely_counts_fp exact_fpu (replicate 20 0)
            \<lparr>shape0 = 1, shape1 = 3, rows = [[Fin 7, Fin 9, Fin (31 / 100)]]\<rparr>
            (Fin 0) (Fin (1 / 10))) ! 0 ! 2 =
       fst (find_most_likely_counts_fp exact_fpu (replicate 20 0)
            \<lparr>shape0 = 1, shape1 = 3, rows = [[Fin (1 / 10), Fin (2 / 10), Fin (31 / 100)]]\<rparr>
            (Fin 0) (Fin (1 / 10))) ! 0 ! 2"
proof -
  let ?a = "\<lparr>shape0 = 1, shape1 = 3, rows = [[Fin (1 / 10), Fin (2 / 10), Fin (31 / 100)]]\<rparr>"
  let ?b = "\<lparr>shape0 = 1, shape1 = 3, rows = [[Fin 7, Fin 9, Fin (31 / 100)]]\<rparr>"
  have a: "well_shaped ?a" and b: "well_shaped ?b"
    by (simp_all add: well_shaped_def row_ok_def)
  have k: "0 < nat (shape0 ?a)" and i: "2 < nat (shape1 ?a)" by simp_all
  from direct_counting_pixelwise[OF a k i, of exact_fpu "replicate 20 0" "Fin 0" "Fin (1 / 10)"] a b
  show ?thesis by (simp add: rsub_def exact_fpu_fields)
qed

section \<open>Running the scan\<close>

lemma col_index_in: "0 \<le> i \<Longrightarrow> i < w \<Longrightarrow> col_index w i = Inr (nat i)"
  by (simp add: col_index_def)

lemma read_px_in: "0 \<le> i \<Longrightarrow> i < w \<Longrightarrow> read_px img k i w = Inr (img ! k ! nat i)"
  by (simp add: read_px_def col_index_in)

lemma row_loop_exit: "\<not> s_i s < e_width e \<Longrightarrow> row_loop e k s = Some (Inr s)"
  by (subst row_loop.simps) simp

lemma row_loop_step:
  "s_i s < e_width e \<Longrightarrow> loop_body e k s = Inr s' \<Longrightarrow> row_loop e k s = row_loop e k s'"
  by (subst row_loop.simps) simp

lemma row_loop_error:
  "s_i s < e_width e \<Longrightarrow> loop_body e k s = Inl err \<Longrightarrow> row_loop e k s = Some (Inl err)"
  by (subst row_loop.simps) simp

lemma threshold_value: "fdiv (Fin 1) (fadd (Fin 1) (fpown (Fin integration_range_gamma) 2)) = Fin (1 / 5)"
  by (simp add: integration_range_gamma_def numeral_2_eq_2)

lemma peaklength_one: "int_of_float (fround (fmul (fmul (Fin 2) (Fin integration_range_gamma)) (Fin 1))) = Inr 4"
  by (simp add: integration_range_gamma_def int_of_float_def)

lemma atan_span: "1 \<le> arctan 10 - arctan (- 10)"
proof -
  have "arctan 1 < arctan 10" by (simp add: arctan_less_iff)
  moreover have "2 \<le> pi" by (rule pi_ge_two)
  ultimately show ?thesis by (simp add: arctan_one arctan_minus)
qed

lemma c_electron_counting_rows:
  assumes "int_of_float (fround (fmul (fmul (Fin 2) (Fin integration_range_gamma)) peakwidth)) = Inr pl"
  shows "c_electron_counting tbl0 rnd rm calls img res h w b c peakwidth oi =
    (case rows_loop
            \<lparr>e_image = img, e_width = w, e_baseline = b, e_only_integrate = oi,
             e_threshold = Fin (1 / 5),
             e_peak_height = fdiv (fdiv c peakwidth) (Fin (arctan 10 - arctan (- 10))),
             e_peaklength = pl,
             e_counts_divisor = fsub c (fmul b (float_of_int pl)),
             e_table = create_factorials_table factorials_table_length tbl0,
             e_rand = rnd, e_rand_max = rm\<rparr>
            [0..<nat h] res calls of
       None \<Rightarrow> None
     | Some (Inl err) \<Rightarrow> Some (Inl err)
     | Some (Inr (res', calls')) \<Rightarrow>
         Some (Inr (res', create_factorials_table factorials_table_length tbl0, calls')))"
  unfolding c_electron_counting_def Let_def threshold_value assms
  by (simp add: fsub_def)

lemma run_flat: "electron_counting (replicate 20 0) (\<lambda>n. 0) 2147483647 0
         \<lparr>shape0 = 1, shape1 = 1, rows = [[Fin 0]]\<rparr> (Fin 0) (Fin (1 / 10)) (Fin 1) False
       = Some (Inr ([[Fin 0]], create_factorials_table factorials_table_length (replicate 20 0), 0))"
proof -
  define e where "e = \<lparr>e_image = [[Fin 0]], e_width = 1, e_baseline = Fin 0,
                      e_only_integrate = False, e_threshold = Fin (1 / 5),
                      e_peak_height = fdiv (fdiv (Fin (1 / 10)) (Fin 1)) (Fin (arctan 10 - arctan (- 10))),
                      e_peaklength = 4,
                      e_counts_divisor = fsub (Fin (1 / 10)) (fmul (Fin 0) (float_of_int 4)),
                      e_table = create_factorials_table factorials_table_length (replicate 20 0),
                      e_rand = (\<lambda>n. 0), e_rand_max = 2147483647\<rparr>"
  define ph where "ph = (1 / 10 / (arctan 10 - arctan (- 10)) :: real)"
  have ph: "0 < ph" using atan_span by (simp add: ph_def)
  have "arctan 10 - arctan (- 10) \<noteq> 0" using atan_span by linarith
  then have eph: "e_peak_height e = Fin ph" by (simp add: e_def ph_def)
  have esel: "e_image e = [[Fin 0]]" "e_width e = 1" "e_baseline e = Fin 0" "e_threshold e = Fin (1 / 5)"
    by (simp_all add: e_def)
  define s0 where "s0 = row_start e [[Fin 0]] 0"
  have body: "loop_body e 0 s0 = Inr (s0\<lparr>s_i := 1\<rparr>)"
    using ph by (simp add: loop_body_def peak_step_def start_step_def read_px_in s0_def row_start_def eph esel fgt_def fsub_def)
  have "row_loop e 0 s0 = row_loop e 0 (s0\<lparr>s_i := 1\<rparr>)"
    by (rule row_loop_step[OF _ body]) (simp add: s0_def row_start_def esel)
  also have "\<dots> = Some (Inr (s0\<lparr>s_i := 1\<rparr>))"
    by (rule row_loop_exit) (simp add: esel)
  finally have row: "row_loop e 0 (row_start e [[Fin 0]] 0) = Some (Inr (s0\<lparr>s_i := 1\<rparr>))"
    by (simp add: s0_def)
  have rows: "rows_loop e [0] [[Fin 0]] 0 = Some (Inr ([[Fin 0]], 0))"
    by (simp add: row) (simp add: s0_def row_start_def)
  have up: "[0..<nat 1] = [0]" by simp
  have "c_electron_counting (replicate 20 0) (\<lambda>n. 0) 2147483647 0 [[Fin 0]] [[Fin 0]] 1 1
          (Fin 0) (Fin (1 / 10)) (Fin 1) False =
        (case rows_loop e [0..<nat 1] [[Fin 0]] 0 of
           None \<Rightarrow> None
         | Some (Inl err) \<Rightarrow> Some (Inl err)
         | Some (Inr (res', calls')) \<Rightarrow>
             Some (Inr (res', create_factorials_table factorials_table_length (replicate 20 0), calls')))"
    unfolding e_def by (rule c_electron_counting_rows[OF peaklength_one])
  also have "\<dots> = Some (Inr ([[Fin 0]], create_factorials_table factorials_table_length (replicate 20 0), 0))"
    unfolding up rows by simp
  finally show ?thesis
    by (simp add: electron_counting_def zeros_def)
qed

lemma peak_height_default:
  "fdiv (fdiv (Fin (1 / 10)) (Fin 1)) (Fin (arctan 10 - arctan (- 10))) =
     Fin (1 / 10 / (arctan 10 - arctan (- 10)))
   \<and> 0 < 1 / 10 / (arctan 10 - arctan (- 10))
   \<and> 1 / 10 / (arctan 10 - arctan (- 10)) \<le> 1 / 10"
proof -
  have s: "1 \<le> arctan 10 - arctan (- 10)" by (rule atan_span)
  then have "arctan 10 - arctan (- 10) \<noteq> 0" by linarith
  then have "fdiv (fdiv (Fin (1 / 10)) (Fin 1)) (Fin (arctan 10 - arctan (- 10))) =
     Fin (1 / 10 / (arctan 10 - arctan (- 10)))" by simp
  moreover have "0 < 1 / 10 / (arctan 10 - arctan (- 10))" using s by simp
  moreover have "1 / 10 / (arctan 10 - arctan (- 10)) \<le> 1 / 10 / 1"
    using s by (intro divide_left_mono) simp_all
  ultimately show ?thesis by simp
qed

section \<open>The table during the operations\<close>

text \<open>
  C5: after \<open>create_factorials_table(20)\<close> the table has \<open>table[0] = 1\<close> and
  \<open>table[i] = i * table[i-1]\<close> for \<open>i\<close> from 1 to 19, which is \<open>i!\<close> (no product
  leaves the range of a 64-bit \<open>long\<close>); the two operations leave the table as it
  was built.
\<close>

theorem factorial_table_correct:
  assumes "length tbl0 = 20"
  shows "create_factorials_table factorials_table_length tbl0 ! 0 = 1
    \<and> (\<forall>i. 1 \<le> i \<and> i < 20 \<longrightarrow>
          create_factorials_table factorials_table_length tbl0 ! i =
            of_nat i * create_factorials_table factorials_table_length tbl0 ! (i - 1)
          \<and> sint (create_factorials_table factorials_table_length tbl0 ! i) = int (fact i))
    \<and> snd (c_find_most_likely_counts_image tbl0 img res h w b c) =
        create_factorials_table factorials_table_length tbl0
    \<and> (\<forall>r. c_electron_counting tbl0 rnd rm calls img res h w b c pw oi = Some (Inr r) \<longrightarrow>
          fst (snd r) = create_factorials_table factorials_table_length tbl0)"
proof (intro conjI allI impI)
  show "create_factorials_table factorials_table_length tbl0 ! 0 = 1"
    using create_factorials_table_nth[OF assms, of 0] by simp
next
  fix i :: nat assume i: "1 \<le> i \<and> i < 20"
  then have "(fact i :: nat) = i * fact (i - 1)" by (cases i) simp_all
  then have "(of_nat (fact i) :: long) = of_nat i * of_nat (fact (i - 1))"
    by (metis of_nat_mult)
  moreover have "create_factorials_table factorials_table_length tbl0 ! i = of_nat (fact i)"
    using i by (intro create_factorials_table_nth[OF assms]) simp
  moreover have "create_factorials_table factorials_table_length tbl0 ! (i - 1) = of_nat (fact (i - 1))"
    using i by (intro create_factorials_table_nth[OF assms]) arith
  ultimately show "create_factorials_table factorials_table_length tbl0 ! i =
            of_nat i * create_factorials_table factorials_table_length tbl0 ! (i - 1)"
    by simp
  show "sint (create_factorials_table factorials_table_length tbl0 ! i) = int (fact i)"
    using i by (simp add: create_factorials_table_nth[OF assms] fact_fits_long)
next
  show "snd (c_find_most_likely_counts_image tbl0 img res h w b c) =
        create_factorials_table factorials_table_length tbl0"
    by (simp add: c_find_most_likely_counts_image_def Let_def)
next
  fix r assume "c_electron_counting tbl0 rnd rm calls img res h w b c pw oi = Some (Inr r)"
  then show "fst (snd r) = create_factorials_table factorials_table_length tbl0"
    by (auto simp: c_electron_counting_def Let_def split: sum.splits option.splits)
qed

theorem factorial_table_correct_witness:
  "length (replicate 20 0 :: long list) = 20
   \<and> create_factorials_table factorials_table_length (replicate 20 0) ! 0 = 1
   \<and> create_factorials_table factorials_table_length (replicate 20 0) ! 5 =
       5 * create_factorials_table factorials_table_length (replicate 20 0) ! 4
   \<and> sint (create_factorials_table factorials_table_length (replicate 20 0) ! 5) = 120
   \<and> snd (c_find_most_likely_counts_image (replicate 20 0) [[Fin 1]] [[Fin 0]] 1 1 (Fin 0) (Fin 1)) =
       create_factorials_table factorials_table_length (replicate 20 0)
   \<and> c_electron_counting (replicate 20 0) (\<lambda>n. 0) 2147483647 0 [[Fin 0]] [[Fin 0]] 1 1
         (Fin 0) (Fin (1 / 10)) (Fin 1) False =
       Some (Inr ([[Fin 0]], create_factorials_table factorials_table_length (replicate 20 0), 0))"
  using factorial_table_correct[of "replicate 20 0" "[[Fin 1]]" "[[Fin 0]]" 1 1 "Fin 0" "Fin 1"]
    run_flat
  by (simp add: fact_numeral electron_counting_def zeros_def)

section \<open>The last column of a row\<close>

lemma legacy_row_loop_exit: "\<not> s_i s < e_width e \<Longrightarrow> legacy_row_loop e k s = Some (Inr s)"
  by (subst legacy_row_loop.simps) simp

lemma legacy_row_loop_step:
  "s_i s < e_width e \<Longrightarrow> legacy_loop_body e k s = Inr s' \<Longrightarrow>
   legacy_row_loop e k s = legacy_row_loop e k s'"
  by (subst legacy_row_loop.simps) simp

text \<open>
  C10: when no peak is active at the last column of a row and the sample there is
  above the detection threshold, the loop body starts a peak at that column (the
  state holds \<open>index = width - 1\<close>), the row loop then ends, and the result buffer
  is as it was: nothing is written for that peak.  This holds for the loop of
  either module, each with its own threshold test.
\<close>

theorem peak_started_at_last_column_is_dropped:
  assumes "s_index s = - 1" and "s_i s = e_width e - 1" and "0 \<le> s_i s"
    and "s' = s\<lparr>s_index := s_i s, s_integral := e_image e ! k ! nat (s_i s), s_i := e_width e\<rparr>"
  shows "(fgt (fsub (e_image e ! k ! nat (s_i s)) (e_baseline e))
              (fmul (s_peak_max s) (e_threshold e)) \<longrightarrow>
            loop_body e k s = Inr s' \<and> row_loop e k s = Some (Inr s'))
         \<and> (fge (fsub (e_image e ! k ! nat (s_i s)) (e_baseline e)) (e_threshold e) \<longrightarrow>
            legacy_loop_body e k s = Inr s' \<and> legacy_row_loop e k s = Some (Inr s'))
         \<and> s_index s' = e_width e - 1 \<and> s_result s' = s_result s"
proof (intro conjI impI)
  have lt: "s_i s < e_width e" using assms(2) by simp
  have ex: "\<not> s_i s' < e_width e" by (simp add: assms(4))
  {
    assume "fgt (fsub (e_image e ! k ! nat (s_i s)) (e_baseline e))
              (fmul (s_peak_max s) (e_threshold e))"
    then show body: "loop_body e k s = Inr s'"
      using assms lt by (simp add: loop_body_def peak_step_def start_step_def read_px_in)
    show "row_loop e k s = Some (Inr s')"
      using row_loop_step[OF lt body] row_loop_exit[OF ex] by simp
  }
  {
    assume "fge (fsub (e_image e ! k ! nat (s_i s)) (e_baseline e)) (e_threshold e)"
    then show body: "legacy_loop_body e k s = Inr s'"
      using assms lt
      by (simp add: legacy_loop_body_def legacy_peak_step_def legacy_start_step_def read_px_in)
    show "legacy_row_loop e k s = Some (Inr s')"
      using legacy_row_loop_step[OF lt body] legacy_row_loop_exit[OF ex] by simp
  }
  show "s_index s' = e_width e - 1" using assms(2,4) by simp
  show "s_result s' = s_result s" using assms(4) by simp
qed

theorem peak_started_at_last_column_is_dropped_witness:
  "row_loop
     \<lparr>e_image = [[Fin 0, Fin 1]], e_width = 2, e_baseline = Fin 0, e_only_integrate = False,
      e_threshold = Fin (1 / 5), e_peak_height = Fin (1 / 30), e_peaklength = 4,
      e_counts_divisor = Fin (1 / 10), e_table = replicate 20 0, e_rand = (\<lambda>n. 0),
      e_rand_max = 2147483647\<rparr> 0
     \<lparr>s_i = 1, s_index = - 1, s_integral = Fin 0, s_peak_max = Fin (1 / 30),
      s_result = [[Fin 0, Fin 0]], s_rand_calls = 0\<rparr> =
   Some (Inr \<lparr>s_i = 2, s_index = 1, s_integral = Fin 1, s_peak_max = Fin (1 / 30),
              s_result = [[Fin 0, Fin 0]], s_rand_calls = 0\<rparr>)
   \<and> legacy_row_loop
     \<lparr>e_image = [[Fin 0, Fin 1]], e_width = 2, e_baseline = Fin 0, e_only_integrate = False,
      e_threshold = Fin (1 / 5), e_peak_height = Fin (1 / 30), e_peaklength = 4,
      e_counts_divisor = Fin (1 / 10), e_table = replicate 20 0, e_rand = (\<lambda>n. 0),
      e_rand_max = 2147483647\<rparr> 0
     \<lparr>s_i = 1, s_index = - 1, s_integral = Fin 0, s_peak_max = Fin (1 / 30),
      s_result = [[Fin 0, Fin 0]], s_rand_calls = 0\<rparr> =
   Some (Inr \<lparr>s_i = 2, s_index = 1, s_integral = Fin 1, s_peak_max = Fin (1 / 30),
              s_result = [[Fin 0, Fin 0]], s_rand_calls = 0\<rparr>)"
  using peak_started_at_last_column_is_dropped[of
     "\<lparr>s_i = 1, s_index = - 1, s_integral = Fin 0, s_peak_max = Fin (1 / 30),
      s_result = [[Fin 0, Fin 0]], s_rand_calls = 0\<rparr>"
     "\<lparr>e_image = [[Fin 0, Fin 1]], e_width = 2, e_baseline = Fin 0, e_only_integrate = False,
      e_threshold = Fin (1 / 5), e_peak_height = Fin (1 / 30), e_peaklength = 4,
      e_counts_divisor = Fin (1 / 10), e_table = replicate 20 0, e_rand = (\<lambda>n. 0),
      e_rand_max = 2147483647\<rparr>"
     "\<lparr>s_i = 2, s_index = 1, s_integral = Fin 1, s_peak_max = Fin (1 / 30),
              s_result = [[Fin 0, Fin 0]], s_rand_calls = 0\<rparr>" 0]
  by (simp add: fgt_def fge_def fsub_def)

section \<open>The randomized restart\<close>

text \<open>
  C1: the scan does read outside the image.  On the one-row image \<open>[[1, 1]]\<close> with
  the default arguments the peak that starts at column 0 is closed at column 1, the
  last one, with its sample above the threshold; with \<open>rand()\<close> returning
  805306368 (three eighths of \<open>RAND_MAX + 1\<close>) the offset is 1, the scan restarts at
  column 2, and \<open>image[k, 2]\<close> is read in a row of width 2.
\<close>

theorem restart_reads_out_of_bounds:
  "electron_counting (replicate 20 0) (\<lambda>n. 805306368) 2147483647 0
     \<lparr>shape0 = 1, shape1 = 2, rows = [[Fin 1, Fin 1]]\<rparr> (Fin 0) (Fin (1 / 10)) (Fin 1) False
   = Some (Inl OutOfBounds)"
proof -
  define ph where "ph = (1 / 10 / (arctan 10 - arctan (- 10)) :: real)"
  have ph: "0 < ph" "ph \<le> 1 / 10" and phv: "fdiv (fdiv (Fin (1 / 10)) (Fin 1)) (Fin (arctan 10 - arctan (- 10))) = Fin ph"
    using peak_height_default by (simp_all add: ph_def)
  define e where "e = \<lparr>e_image = [[Fin 1, Fin 1]], e_width = 2, e_baseline = Fin 0,
     e_only_integrate = False, e_threshold = Fin (1 / 5),
     e_peak_height = fdiv (fdiv (Fin (1 / 10)) (Fin 1)) (Fin (arctan 10 - arctan (- 10))),
     e_peaklength = 4,
     e_counts_divisor = fsub (Fin (1 / 10)) (fmul (Fin 0) (float_of_int 4)),
     e_table = create_factorials_table factorials_table_length (replicate 20 0),
     e_rand = (\<lambda>n. 805306368), e_rand_max = 2147483647\<rparr>"
  have eph: "e_peak_height e = Fin ph"
    unfolding e_def scan_env.select_convs by (rule phv)
  have esel: "e_image e = [[Fin 1, Fin 1]]" "e_width e = 2" "e_baseline e = Fin 0"
    "e_threshold e = Fin (1 / 5)" "e_peaklength e = 4"
    "e_rand e = (\<lambda>n. 805306368)" "e_rand_max e = 2147483647" "e_only_integrate e = False"
    by (simp_all add: e_def)
  define s0 where "s0 = row_start e [[Fin 0, Fin 0]] 0"
  define s1 where "s1 = s0\<lparr>s_index := 0, s_integral := Fin 1, s_i := 1\<rparr>"
  have b0: "loop_body e 0 s0 = Inr s1"
    using ph
    by (simp add: loop_body_def peak_step_def start_step_def read_px_in s0_def s1_def row_start_def
        esel eph fgt_def fsub_def)
  have rn: "int_of_float (fmul (fdiv (float_of_int 805306368) (float_of_int 2147483647)) (float_of_int 4)) = Inr 1"
    by (simp add: int_of_float_def float_of_int_def)
  have b1: "loop_body e 0 s1 = Inl OutOfBounds"
    using ph
    by (simp add: loop_body_def peak_step_def close_peak_def read_px_def write_px_def col_index_def
        s0_def s1_def row_start_def esel eph fgt_def fsub_def rn)
  have "row_loop e 0 s0 = row_loop e 0 s1"
    by (rule row_loop_step[OF _ b0]) (simp add: s0_def row_start_def esel eph)
  also have "\<dots> = Some (Inl OutOfBounds)"
    by (rule row_loop_error[OF _ b1]) (simp add: s1_def s0_def row_start_def esel)
  finally have row: "row_loop e 0 (row_start e [[Fin 0, Fin 0]] 0) = Some (Inl OutOfBounds)"
    by (simp add: s0_def)
  have rows: "rows_loop e [0] [[Fin 0, Fin 0]] 0 = Some (Inl OutOfBounds)"
    by (simp add: row)
  have up: "[0..<nat 1] = [0]" by simp
  have "c_electron_counting (replicate 20 0) (\<lambda>n. 805306368) 2147483647 0
          [[Fin 1, Fin 1]] [[Fin 0, Fin 0]] 1 2 (Fin 0) (Fin (1 / 10)) (Fin 1) False =
        (case rows_loop e [0..<nat 1] [[Fin 0, Fin 0]] 0 of
           None \<Rightarrow> None
         | Some (Inl err) \<Rightarrow> Some (Inl err)
         | Some (Inr (res', calls')) \<Rightarrow>
             Some (Inr (res', create_factorials_table factorials_table_length (replicate 20 0), calls')))"
    unfolding e_def by (rule c_electron_counting_rows[OF peaklength_one])
  also have "\<dots> = Some (Inl OutOfBounds)"
    unfolding up rows by simp
  finally show ?thesis
    by (simp add: electron_counting_def zeros_def numeral_2_eq_2)
qed

text \<open>
  C4: the random offset can be \<open>peaklength\<close> itself.  On a row of seven samples 1
  and a last sample 0, with \<open>only_integrate\<close> set and \<open>rand()\<close> returning
  \<open>RAND_MAX\<close>, the peak that starts at column 0 is cut at column 4 (\<open>peaklength\<close> is
  4) and the next peak starts at column 5, which is \<open>index + 1 + peaklength\<close>: the
  result holds the integral 4 at column 0 and the integral 2 at column 5.
\<close>

theorem restart_offset_reaches_peaklength:
  "electron_counting (replicate 20 0) (\<lambda>n. 2147483647) 2147483647 0
     \<lparr>shape0 = 1, shape1 = 8,
      rows = [[Fin 1, Fin 1, Fin 1, Fin 1, Fin 1, Fin 1, Fin 1, Fin 0]]\<rparr>
     (Fin 0) (Fin (1 / 10)) (Fin 1) True
   = Some (Inr ([[Fin 4, Fin 0, Fin 0, Fin 0, Fin 0, Fin 2, Fin 0, Fin 0]],
                create_factorials_table factorials_table_length (replicate 20 0), 1))"
proof -
  define ph where "ph = (1 / 10 / (arctan 10 - arctan (- 10)) :: real)"
  have ph: "0 < ph" "ph \<le> 1 / 10" and phv: "fdiv (fdiv (Fin (1 / 10)) (Fin 1)) (Fin (arctan 10 - arctan (- 10))) = Fin ph"
    using peak_height_default by (simp_all add: ph_def)
  define img where "img = [[Fin 1, Fin 1, Fin 1, Fin 1, Fin 1, Fin 1, Fin 1, Fin 0]]"
  define z where "z = [[Fin 0, Fin 0, Fin 0, Fin 0, Fin 0, Fin 0, Fin 0, Fin 0]]"
  define e where "e = \<lparr>e_image = img, e_width = 8, e_baseline = Fin 0,
     e_only_integrate = True, e_threshold = Fin (1 / 5),
     e_peak_height = fdiv (fdiv (Fin (1 / 10)) (Fin 1)) (Fin (arctan 10 - arctan (- 10))),
     e_peaklength = 4,
     e_counts_divisor = fsub (Fin (1 / 10)) (fmul (Fin 0) (float_of_int 4)),
     e_table = create_factorials_table factorials_table_length (replicate 20 0),
     e_rand = (\<lambda>n. 2147483647), e_rand_max = 2147483647\<rparr>"
  have eph: "e_peak_height e = Fin ph"
    unfolding e_def scan_env.select_convs by (rule phv)
  have esel: "e_image e = img" "e_width e = 8" "e_baseline e = Fin 0"
    "e_threshold e = Fin (1 / 5)" "e_peaklength e = 4"
    "e_rand e = (\<lambda>n. 2147483647)" "e_rand_max e = 2147483647" "e_only_integrate e = True"
    by (simp_all add: e_def)
  note defs = loop_body_def peak_step_def start_step_def close_peak_def read_px_def write_px_def
    col_index_def esel eph fgt_def fsub_def img_def
  define s0 where "s0 = \<lparr>s_i = 0, s_index = - 1, s_integral = Fin 0, s_peak_max = Fin ph,
                         s_result = z, s_rand_calls = 0\<rparr>"
  define s1 where "s1 = \<lparr>s_i = 1, s_index = 0, s_integral = Fin 1, s_peak_max = Fin ph,
                         s_result = z, s_rand_calls = 0\<rparr>"
  define s2 where "s2 = \<lparr>s_i = 2, s_index = 0, s_integral = Fin 2, s_peak_max = Fin 1,
                         s_result = z, s_rand_calls = 0\<rparr>"
  define s3 where "s3 = \<lparr>s_i = 3, s_index = 0, s_integral = Fin 3, s_peak_max = Fin 1,
                         s_result = z, s_rand_calls = 0\<rparr>"
  define s4 where "s4 = \<lparr>s_i = 4, s_index = 0, s_integral = Fin 4, s_peak_max = Fin 1,
                         s_result = z, s_rand_calls = 0\<rparr>"
  define s5 where "s5 = \<lparr>s_i = 6, s_index = 5, s_integral = Fin 1, s_peak_max = Fin ph,
                         s_result = [[Fin 4, Fin 0, Fin 0, Fin 0, Fin 0, Fin 0, Fin 0, Fin 0]],
                         s_rand_calls = 1\<rparr>"
  define s6 where "s6 = \<lparr>s_i = 7, s_index = 5, s_integral = Fin 2, s_peak_max = Fin 1,
                         s_result = [[Fin 4, Fin 0, Fin 0, Fin 0, Fin 0, Fin 0, Fin 0, Fin 0]],
                         s_rand_calls = 1\<rparr>"
  define s7 where "s7 = \<lparr>s_i = 8, s_index = - 1, s_integral = Fin 0, s_peak_max = Fin ph,
                         s_result = [[Fin 4, Fin 0, Fin 0, Fin 0, Fin 0, Fin 2, Fin 0, Fin 0]],
                         s_rand_calls = 1\<rparr>"
  have rn: "int_of_float (fmul (fdiv (float_of_int 2147483647) (float_of_int 2147483647)) (float_of_int 4)) = Inr 4"
    by (simp add: int_of_float_def float_of_int_def)
  have b0: "loop_body e 0 s0 = Inr s1" using ph by (simp add: defs s0_def s1_def)
  have b1: "loop_body e 0 s1 = Inr s2" using ph by (simp add: defs s1_def s2_def)
  have b2: "loop_body e 0 s2 = Inr s3" by (simp add: defs s2_def s3_def)
  have b3: "loop_body e 0 s3 = Inr s4" by (simp add: defs s3_def s4_def)
  have b4: "loop_body e 0 s4 = Inr s5" by (simp add: defs s4_def s5_def rn z_def)
  have b5: "loop_body e 0 s5 = Inr s6" using ph by (simp add: defs s5_def s6_def)
  have b6: "loop_body e 0 s6 = Inr s7" using ph by (simp add: defs s6_def s7_def)
  have "row_loop e 0 s0 = row_loop e 0 s1" by (rule row_loop_step[OF _ b0]) (simp add: s0_def esel)
  also have "\<dots> = row_loop e 0 s2" by (rule row_loop_step[OF _ b1]) (simp add: s1_def esel)
  also have "\<dots> = row_loop e 0 s3" by (rule row_loop_step[OF _ b2]) (simp add: s2_def esel)
  also have "\<dots> = row_loop e 0 s4" by (rule row_loop_step[OF _ b3]) (simp add: s3_def esel)
  also have "\<dots> = row_loop e 0 s5" by (rule row_loop_step[OF _ b4]) (simp add: s4_def esel)
  also have "\<dots> = row_loop e 0 s6" by (rule row_loop_step[OF _ b5]) (simp add: s5_def esel)
  also have "\<dots> = row_loop e 0 s7" by (rule row_loop_step[OF _ b6]) (simp add: s6_def esel)
  also have "\<dots> = Some (Inr s7)" by (rule row_loop_exit) (simp add: s7_def esel)
  finally have row: "row_loop e 0 (row_start e z 0) = Some (Inr s7)"
    by (simp add: s0_def row_start_def eph)
  have rows: "rows_loop e [0] z 0 =
      Some (Inr ([[Fin 4, Fin 0, Fin 0, Fin 0, Fin 0, Fin 2, Fin 0, Fin 0]], 1))"
    by (simp add: row) (simp add: s7_def)
  have up: "[0..<nat 1] = [0]" by simp
  have "c_electron_counting (replicate 20 0) (\<lambda>n. 2147483647) 2147483647 0
          img z 1 8 (Fin 0) (Fin (1 / 10)) (Fin 1) True =
        (case rows_loop e [0..<nat 1] z 0 of
           None \<Rightarrow> None
         | Some (Inl err) \<Rightarrow> Some (Inl err)
         | Some (Inr (res', calls')) \<Rightarrow>
             Some (Inr (res', create_factorials_table factorials_table_length (replicate 20 0), calls')))"
    unfolding e_def by (rule c_electron_counting_rows[OF peaklength_one])
  also have "\<dots> = Some (Inr ([[Fin 4, Fin 0, Fin 0, Fin 0, Fin 0, Fin 2, Fin 0, Fin 0]],
                create_factorials_table factorials_table_length (replicate 20 0), 1))"
    unfolding up rows by simp
  finally show ?thesis
    by (simp add: electron_counting_def zeros_def img_def z_def eval_nat_numeral)
qed

end
